theory Spec2Isabelle
  imports Main
begin

section \<open>The document model (the type declarations of package main)\<close>

datatype OperationType = FileOp | PromptOp | CommandOp | TextOp

text \<open>
  An operation is a struct of four optional strings, as the YAML decoder fills it;
  a nil pointer is \<open>None\<close>.
\<close>

record Operation =
  File :: "string option"
  Prompt :: "string option"
  Command :: "string option"
  Text :: "string option"

text \<open>
  The struct \<open>PromptFile\<close> has the single field \<open>Prompt\<close>, a slice of operations;
  the nil slice (no \<open>prompt\<close> key in the document) is \<open>None\<close>. The field is called
  \<open>PromptOps\<close> here, since \<open>Prompt\<close> is already a field of \<open>Operation\<close>.
\<close>

record PromptFile =
  PromptOps :: "Operation list option"

record ContentSection =
  Source :: string
  Content :: string
  Type :: OperationType

text \<open>
  How a shell command ended: it exited with a status, it could not be started, or a
  signal ended it. This is what \<open>cmd.CombinedOutput\<close> and \<open>cmd.ProcessState\<close> report.
\<close>

datatype outcome = Exited int | SpawnFailed | Signaled

datatype error =
    ErrOperationEmpty
  | ErrOperationMultiple
  | ErrMissingPromptKey
  | ErrOperationIndex nat error
  | ErrValidationFailed string error
  | ErrInvalidYAML string string
  | ErrFileNotFound string
  | ErrBinaryFile string
  | ErrCircularReference string "string set"
  | ErrCommandFailed string outcome
  | ErrWordLimitExceeded int int
  | ErrReadFailed string
  | ErrWriteFailed string
  | ErrUnknownOperation

text \<open>
  \<open>ErrOperationIndex\<close> and \<open>ErrValidationFailed\<close> are the two wrappers that
  \<open>validatePromptFile\<close> and \<open>parsePromptFile\<close> put around an error;
  \<open>ErrMissingPromptKey\<close>, \<open>ErrReadFailed\<close>, \<open>ErrWriteFailed\<close> and
  \<open>ErrUnknownOperation\<close> are the errors the code builds from a message. The last
  one belongs to the default branch of \<open>processOperation\<close>, which no value of
  \<open>OperationType\<close> reaches.

  \<open>GetType\<close> counts the populated fields; the type of the last populated field wins.
  On an error the Go function returns the zero value of \<open>OperationType\<close>, which is
  \<open>FileOp\<close>.
\<close>

definition GetType :: "Operation \<Rightarrow> OperationType \<times> error option" where
  "GetType op =
     (let (count1, opType1) = (if File op \<noteq> None then (1::nat, FileOp) else (0, FileOp));
          (count2, opType2) = (if Prompt op \<noteq> None then (count1 + 1, PromptOp) else (count1, opType1));
          (count3, opType3) = (if Command op \<noteq> None then (count2 + 1, CommandOp) else (count2, opType2));
          (count4, opType4) = (if Text op \<noteq> None then (count3 + 1, TextOp) else (count3, opType3))
      in if count4 = 0 then (FileOp, Some ErrOperationEmpty)
         else if count4 > 1 then (FileOp, Some ErrOperationMultiple)
         else (opType4, None))"

definition GetValue :: "Operation \<Rightarrow> string" where
  "GetValue op =
     (case File op of Some v \<Rightarrow> v | None \<Rightarrow>
      (case Prompt op of Some v \<Rightarrow> v | None \<Rightarrow>
       (case Command op of Some v \<Rightarrow> v | None \<Rightarrow>
        (case Text op of Some v \<Rightarrow> v | None \<Rightarrow> []))))"

section \<open>Paths (Go's path/filepath on a Unix system)\<close>

text \<open>
  The engine calls \<open>filepath.IsAbs\<close>, \<open>Join\<close>, \<open>Dir\<close> and \<open>Abs\<close> of the Go standard
  library. They are modelled here after the library's Unix implementation: a path is
  a byte string, the separator is the slash.
\<close>

definition IsAbs :: "string \<Rightarrow> bool" where
  "IsAbs p = (case p of [] \<Rightarrow> False | c # cs \<Rightarrow> c = CHR ''/'')"

fun splitPath :: "string \<Rightarrow> string list" where
  "splitPath [] = [[]]"
| "splitPath (c # cs) =
     (if c = CHR ''/'' then [] # splitPath cs
      else (case splitPath cs of [] \<Rightarrow> [[c]] | e # es \<Rightarrow> (c # e) # es))"

fun joinElems :: "string list \<Rightarrow> string" where
  "joinElems [] = []"
| "joinElems [e] = e"
| "joinElems (e # es) = e @ ''/'' @ joinElems es"

text \<open>
  \<open>Clean\<close>: empty and \<open>.\<close> elements go; \<open>..\<close> removes the element before it, is dropped
  at the root of a rooted path, and is kept at the start of a relative one. The
  elements kept so far are in \<open>out\<close>, the last one first.
\<close>

fun cleanElems :: "bool \<Rightarrow> string list \<Rightarrow> string list \<Rightarrow> string list" where
  "cleanElems rooted out [] = rev out"
| "cleanElems rooted out (e # es) =
     (if e = [] \<or> e = ''.'' then cleanElems rooted out es
      else if e = ''..'' then
        (case out of
           [] \<Rightarrow> if rooted then cleanElems rooted out es else cleanElems rooted (e # out) es
         | d # ds \<Rightarrow> if d = ''..'' then cleanElems rooted (e # out) es
                     else cleanElems rooted ds es)
      else cleanElems rooted (e # out) es)"

definition Clean :: "string \<Rightarrow> string" where
  "Clean p =
     (let body = joinElems (cleanElems (IsAbs p) [] (splitPath p))
      in if IsAbs p then ''/'' @ body else if body = [] then ''.'' else body)"

text \<open>\<open>Join\<close> skips the leading empty elements and cleans the rest, joined by slashes.\<close>

fun Join :: "string list \<Rightarrow> string" where
  "Join [] = []"
| "Join (e # es) = (if e \<noteq> [] then Clean (joinElems (e # es)) else Join es)"

text \<open>\<open>Dir\<close> cleans the path up to and with its last slash.\<close>

definition Dir :: "string \<Rightarrow> string" where
  "Dir p = Clean (rev (dropWhile (\<lambda>c. c \<noteq> CHR ''/'') (rev p)))"

section \<open>The world outside the engine\<close>

text \<open>
  A file is readable with its bytes, or it exists and cannot be read (a directory,
  a file without permission).
\<close>

datatype fs_node = Regular string | Unreadable

text \<open>
  The environment of one run: the working directory, the files by absolute cleaned
  path, the YAML decoder (\<open>yaml.Unmarshal\<close> into a \<open>PromptFile\<close>, with the decoder's
  message on failure), what each shell command prints and how it ends, and whether
  a destination can be written.
\<close>

record world =
  cwd :: string
  files :: "string \<rightharpoonup> fs_node"
  unmarshal :: "string \<Rightarrow> string + PromptFile"
  run :: "string \<Rightarrow> string \<times> outcome"
  writable :: "string \<Rightarrow> bool"

definition Abs :: "world \<Rightarrow> string \<Rightarrow> string" where
  "Abs w p = (if IsAbs p then Clean p else Join [cwd w, p])"

text \<open>The observable effects of a run, in the order they happen.\<close>

datatype event =
    EvStat string
  | EvOpen string
  | EvReadFile string
  | EvExec string
  | EvStderr string
  | EvStdout string
  | EvWriteFile string string

section \<open>The processing context\<close>

text \<open>
  \<open>visitedFiles\<close> is a map from paths to \<open>true\<close>, so a set of paths. The two
  counters are Go integers of 64 bits, modelled as unbounded ones: a running total
  grows by the words of a text held in memory and does not come near the bound. The
  field \<open>events\<close> is not in the Go struct: it records the effects performed so far.
\<close>

record ProcessingContext =
  basePath :: string
  visitedFiles :: "string set"
  maxWords :: int
  wordCount :: int
  delimiterStyle :: string
  events :: "event list"

definition NewProcessingContext :: "string \<Rightarrow> int \<Rightarrow> string \<Rightarrow> event list \<Rightarrow> ProcessingContext" where
  "NewProcessingContext bp mw style evs =
     \<lparr>basePath = Dir bp, visitedFiles = {}, maxWords = mw, wordCount = 0,
      delimiterStyle = style, events = evs\<rparr>"

definition MarkVisited :: "world \<Rightarrow> ProcessingContext \<Rightarrow> string \<Rightarrow> ProcessingContext" where
  "MarkVisited w ctx path = ctx\<lparr>visitedFiles := insert (Abs w path) (visitedFiles ctx)\<rparr>"

definition IsVisited :: "world \<Rightarrow> ProcessingContext \<Rightarrow> string \<Rightarrow> bool" where
  "IsVisited w ctx path = (Abs w path \<in> visitedFiles ctx)"

definition ResolvePath :: "ProcessingContext \<Rightarrow> string \<Rightarrow> string" where
  "ResolvePath ctx path = (if IsAbs path then path else Join [basePath ctx, path])"

definition AddWords :: "ProcessingContext \<Rightarrow> int \<Rightarrow> error option \<times> ProcessingContext" where
  "AddWords ctx count =
     (let ctx1 = ctx\<lparr>wordCount := wordCount ctx + count\<rparr>
      in if wordCount ctx1 > maxWords ctx1
         then (Some (ErrWordLimitExceeded (wordCount ctx1) (maxWords ctx1)), ctx1)
         else (None, ctx1))"

definition emit :: "event \<Rightarrow> ProcessingContext \<Rightarrow> ProcessingContext" where
  "emit e ctx = ctx\<lparr>events := events ctx @ [e]\<rparr>"

section \<open>Word counting and section headers\<close>

text \<open>
  \<open>strings.Fields\<close> splits a string around runs of white space, as
  \<open>unicode.IsSpace\<close> defines it on the UTF-8 decoding of the bytes: the six ASCII
  characters, U+0085, U+00A0, U+1680, U+2000 to U+200A, U+2028, U+2029, U+202F,
  U+205F and U+3000. \<open>spaceWidth\<close> is the number of bytes of the white-space
  character a string starts with, 0 when it starts with none.
\<close>

fun spaceWidth :: "string \<Rightarrow> nat" where
  "spaceWidth [] = 0"
| "spaceWidth (c # cs) =
     (if c \<in> {CHR 0x09, CHR 0x0A, CHR 0x0B, CHR 0x0C, CHR 0x0D, CHR 0x20} then 1
      else if c = CHR 0xC2 then
        (case cs of
           b # bs \<Rightarrow> if b = CHR 0x85 \<or> b = CHR 0xA0 then 2 else 0
         | [] \<Rightarrow> 0)
      else if c = CHR 0xE1 then (if take 2 cs = [CHR 0x9A, CHR 0x80] then 3 else 0)
      else if c = CHR 0xE2 then
        (case cs of
           a # b # bs \<Rightarrow>
             if a = CHR 0x80 \<and>
                (0x80 \<le> (of_char b :: nat) \<and> (of_char b :: nat) \<le> 0x8A \<or>
                 b = CHR 0xA8 \<or> b = CHR 0xA9 \<or> b = CHR 0xAF)
             then 3
             else if a = CHR 0x81 \<and> b = CHR 0x9F then 3
             else 0
         | _ \<Rightarrow> 0)
      else if c = CHR 0xE3 then (if take 2 cs = [CHR 0x80, CHR 0x80] then 3 else 0)
      else 0)"

text \<open>
  \<open>FieldsFrom skip cur s\<close>: \<open>skip\<close> bytes of a white-space character are still to be
  passed over, \<open>cur\<close> is the field read so far.
\<close>

fun FieldsFrom :: "nat \<Rightarrow> string \<Rightarrow> string \<Rightarrow> string list" where
  "FieldsFrom skip cur [] = (if cur = [] then [] else [cur])"
| "FieldsFrom skip cur (c # cs) =
     (if skip > 0 then FieldsFrom (skip - 1) cur cs
      else if spaceWidth (c # cs) > 0
           then (if cur = [] then [] else [cur]) @ FieldsFrom (spaceWidth (c # cs) - 1) [] cs
      else FieldsFrom 0 (cur @ [c]) cs)"

definition Fields :: "string \<Rightarrow> string list" where
  "Fields s = FieldsFrom 0 [] s"

definition countWords :: "string \<Rightarrow> int" where
  "countWords text = (if text = [] then 0 else int (length (Fields text)))"

definition formatSectionHeader :: "string \<Rightarrow> string \<Rightarrow> string" where
  "formatSectionHeader source style =
     (if style = ''xml'' then ''\<newline><!-- pcp-source: '' @ source @ '' -->\<newline>''
      else if style = ''minimal'' then ''\<newline>=== PCP SOURCE: '' @ source @ '' ===\<newline>''
      else if style = ''none'' then ''\<newline>''
      else if style = ''full'' then
        ''\<newline>----------------------------------\<newline>BEGIN: '' @ source @
        ''\<newline>----------------------------------\<newline>''
      else ''\<newline><!-- pcp-source: '' @ source @ '' -->\<newline>'')"

section \<open>Reading and parsing documents\<close>

definition lookupFile :: "world \<Rightarrow> string \<Rightarrow> fs_node option" where
  "lookupFile w p = files w (Abs w p)"

definition ReadFile :: "world \<Rightarrow> string \<Rightarrow> string option" where
  "ReadFile w p = (case lookupFile w p of Some (Regular d) \<Rightarrow> Some d | _ \<Rightarrow> None)"

text \<open>The loop of \<open>validatePromptFile\<close>, with the index of the operation.\<close>

fun validateOperations :: "nat \<Rightarrow> Operation list \<Rightarrow> error option" where
  "validateOperations i [] = None"
| "validateOperations i (op # ops) =
     (case snd (GetType op) of
        Some e \<Rightarrow> Some (ErrOperationIndex i e)
      | None \<Rightarrow> validateOperations (Suc i) ops)"

definition validatePromptFile :: "PromptFile \<Rightarrow> error option" where
  "validatePromptFile pf =
     (case PromptOps pf of
        None \<Rightarrow> Some ErrMissingPromptKey
      | Some ops \<Rightarrow> validateOperations 0 ops)"

definition parsePromptFile ::
  "world \<Rightarrow> string \<Rightarrow> ProcessingContext \<Rightarrow> (error + PromptFile) \<times> ProcessingContext" where
  "parsePromptFile w filePath ctx =
     (let ctx1 = emit (EvReadFile (Abs w filePath)) ctx
      in case ReadFile w filePath of
           None \<Rightarrow> (Inl (ErrFileNotFound filePath), ctx1)
         | Some data \<Rightarrow>
             (case unmarshal w data of
                Inl msg \<Rightarrow> (Inl (ErrInvalidYAML filePath msg), ctx1)
              | Inr promptFile \<Rightarrow>
                  (case validatePromptFile promptFile of
                     Some e \<Rightarrow> (Inl (ErrValidationFailed filePath e), ctx1)
                   | None \<Rightarrow> (Inr promptFile, ctx1))))"

text \<open>Ranging over a nil slice runs the loop body no time.\<close>

definition rangeOps :: "PromptFile \<Rightarrow> Operation list" where
  "rangeOps pf = (case PromptOps pf of None \<Rightarrow> [] | Some ops \<Rightarrow> ops)"

text \<open>
  The file is opened and up to 512 bytes are read; a failure to open, a read error
  and the end of file at the first read all answer "not binary".
\<close>

definition isBinaryFile :: "world \<Rightarrow> string \<Rightarrow> bool" where
  "isBinaryFile w filePath =
     (case lookupFile w filePath of
        Some (Regular d) \<Rightarrow> d \<noteq> [] \<and> CHR 0x00 \<in> set (take 512 d)
      | _ \<Rightarrow> False)"

definition getVisitedPaths :: "ProcessingContext \<Rightarrow> string set" where
  "getVisitedPaths ctx = visitedFiles ctx"

section \<open>The validation walk\<close>

text \<open>
  The recursion of \<open>validatePromptFileStructure\<close> carries fuel: \<open>None\<close> is the answer
  of a walk that needs more. The deferred \<open>delete\<close> runs on every return after the
  path was marked.
\<close>

fun validatePromptFileStructure ::
      "nat \<Rightarrow> world \<Rightarrow> string \<Rightarrow> ProcessingContext \<Rightarrow> (error + unit) option \<times> ProcessingContext"
  and validateNested ::
      "nat \<Rightarrow> world \<Rightarrow> Operation list \<Rightarrow> ProcessingContext \<Rightarrow> (error + unit) option \<times> ProcessingContext"
where
  "validatePromptFileStructure 0 w filePath ctx = (None, ctx)"
| "validatePromptFileStructure (Suc n) w filePath ctx =
     (let absPath = Abs w filePath
      in if IsVisited w ctx absPath
         then (Some (Inl (ErrCircularReference filePath (getVisitedPaths ctx))), ctx)
         else
           (let ctx1 = MarkVisited w ctx absPath
            in case parsePromptFile w filePath ctx1 of
                 (Inl e, ctx2) \<Rightarrow>
                   (Some (Inl e), ctx2\<lparr>visitedFiles := visitedFiles ctx2 - {absPath}\<rparr>)
               | (Inr pf, ctx2) \<Rightarrow>
                   (case validateNested n w (rangeOps pf) ctx2 of
                      (r, ctx3) \<Rightarrow> (r, ctx3\<lparr>visitedFiles := visitedFiles ctx3 - {absPath}\<rparr>))))"
| "validateNested n w [] ctx = (Some (Inr ()), ctx)"
| "validateNested n w (op # ops) ctx =
     (if fst (GetType op) = PromptOp
      then (let nestedPath = ResolvePath ctx (GetValue op)
            in case validatePromptFileStructure n w nestedPath ctx of
                 (Some (Inr u), ctx1) \<Rightarrow> validateNested n w ops ctx1
               | (r, ctx1) \<Rightarrow> (r, ctx1))
      else validateNested n w ops ctx)"

section \<open>The execution walk\<close>

definition processFileOperation ::
  "world \<Rightarrow> string \<Rightarrow> ProcessingContext \<Rightarrow> (error + ContentSection) \<times> ProcessingContext" where
  "processFileOperation w filePath ctx =
     (let resolvedPath = ResolvePath ctx filePath;
          ctx1 = emit (EvStat (Abs w resolvedPath)) ctx
      in if lookupFile w resolvedPath = None
         then (Inl (ErrFileNotFound resolvedPath), ctx1)
         else
           (let ctx2 = emit (EvOpen (Abs w resolvedPath)) ctx1
            in if isBinaryFile w resolvedPath
               then (Inl (ErrBinaryFile resolvedPath), ctx2)
               else
                 (let ctx3 = emit (EvReadFile (Abs w resolvedPath)) ctx2
                  in case ReadFile w resolvedPath of
                       None \<Rightarrow> (Inl (ErrReadFailed resolvedPath), ctx3)
                     | Some contentStr \<Rightarrow>
                         (case AddWords ctx3 (countWords contentStr) of
                            (Some e, ctx4) \<Rightarrow> (Inl e, ctx4)
                          | (None, ctx4) \<Rightarrow>
                              (Inr \<lparr>Source = filePath, Content = contentStr, Type = FileOp\<rparr>,
                               ctx4)))))"

text \<open>
  What \<open>CombinedOutput\<close> and \<open>ProcessState\<close> give for an outcome: the error is nil
  only after exit status 0; the process state is nil when the shell did not start;
  the exit code of a process ended by a signal is -1.
\<close>

definition cmdError :: "outcome \<Rightarrow> bool" where
  "cmdError oc = (oc \<noteq> Exited 0)"

definition ExitCode :: "outcome \<Rightarrow> int option" where
  "ExitCode oc = (case oc of Exited c \<Rightarrow> Some c | SpawnFailed \<Rightarrow> None | Signaled \<Rightarrow> Some (- 1))"

definition exitWarning :: "string \<Rightarrow> string" where
  "exitWarning command =
     ''Warning: command '' @ [CHR 0x27] @ command @ [CHR 0x27] @
     '' exited with status 1 but continuing processing\<newline>''"

definition processCommandOperation ::
  "world \<Rightarrow> string \<Rightarrow> ProcessingContext \<Rightarrow> (error + ContentSection) \<times> ProcessingContext" where
  "processCommandOperation w command ctx =
     (let (outputStr, oc) = run w command;
          ctx1 = emit (EvExec command) ctx
      in if cmdError oc \<and> ExitCode oc \<noteq> Some 1
         then (Inl (ErrCommandFailed command oc), ctx1)
         else
           (let ctx2 = (if cmdError oc then emit (EvStderr (exitWarning command)) ctx1 else ctx1)
            in case AddWords ctx2 (countWords outputStr) of
                 (Some e, ctx3) \<Rightarrow> (Inl e, ctx3)
               | (None, ctx3) \<Rightarrow>
                   (Inr \<lparr>Source = command, Content = outputStr, Type = CommandOp\<rparr>, ctx3)))"

definition processTextOperation ::
  "string \<Rightarrow> ProcessingContext \<Rightarrow> (error + ContentSection) \<times> ProcessingContext" where
  "processTextOperation text ctx =
     (case AddWords ctx (countWords text) of
        (Some e, ctx1) \<Rightarrow> (Inl e, ctx1)
      | (None, ctx1) \<Rightarrow> (Inr \<lparr>Source = ''text'', Content = text, Type = TextOp\<rparr>, ctx1))"

text \<open>The loop of \<open>processPromptOperation\<close> that builds \<open>combinedContent\<close>.\<close>

fun combineSections :: "nat \<Rightarrow> string \<Rightarrow> string \<Rightarrow> ContentSection list \<Rightarrow> string" where
  "combineSections i promptPath style [] = []"
| "combineSections i promptPath style (section # sections) =
     (if i > 0 then ''\<newline>'' else []) @
     formatSectionHeader (promptPath @ ''->'' @ Source section) style @
     Content section @
     combineSections (Suc i) promptPath style sections"

text \<open>
  \<open>processOperations\<close> is the loop over the operations of a document, the same in
  \<open>processPromptFile\<close> and in \<open>processPromptOperation\<close>: it stops at the first error
  and appends each section otherwise. The recursion through nested documents carries
  fuel.
\<close>

fun processOperation ::
      "nat \<Rightarrow> world \<Rightarrow> Operation \<Rightarrow> ProcessingContext \<Rightarrow>
       (error + ContentSection) option \<times> ProcessingContext"
  and processPromptOperation ::
      "nat \<Rightarrow> world \<Rightarrow> string \<Rightarrow> ProcessingContext \<Rightarrow>
       (error + ContentSection) option \<times> ProcessingContext"
  and processOperations ::
      "nat \<Rightarrow> world \<Rightarrow> Operation list \<Rightarrow> ProcessingContext \<Rightarrow>
       (error + ContentSection list) option \<times> ProcessingContext"
where
  "processOperation n w op ctx =
     (case GetType op of
        (t, Some e) \<Rightarrow> (Some (Inl e), ctx)
      | (FileOp, None) \<Rightarrow>
          (case processFileOperation w (GetValue op) ctx of (r, ctx1) \<Rightarrow> (Some r, ctx1))
      | (PromptOp, None) \<Rightarrow> processPromptOperation n w (GetValue op) ctx
      | (CommandOp, None) \<Rightarrow>
          (case processCommandOperation w (GetValue op) ctx of (r, ctx1) \<Rightarrow> (Some r, ctx1))
      | (TextOp, None) \<Rightarrow>
          (case processTextOperation (GetValue op) ctx of (r, ctx1) \<Rightarrow> (Some r, ctx1)))"
| "processPromptOperation 0 w promptPath ctx = (None, ctx)"
| "processPromptOperation (Suc n) w promptPath ctx =
     (let resolvedPath = ResolvePath ctx promptPath
      in if IsVisited w ctx resolvedPath
         then (Some (Inl (ErrCircularReference resolvedPath (getVisitedPaths ctx))), ctx)
         else
           (case parsePromptFile w resolvedPath ctx of
              (Inl e, ctx1) \<Rightarrow> (Some (Inl e), ctx1)
            | (Inr pf, ctx1) \<Rightarrow>
                (let oldBasePath = basePath ctx1;
                     ctx2 = ctx1\<lparr>basePath := Dir resolvedPath\<rparr>;
                     ctx3 = MarkVisited w ctx2 resolvedPath
                 in case processOperations n w (rangeOps pf) ctx3 of
                      (None, ctx4) \<Rightarrow> (None, ctx4)
                    | (Some (Inl e), ctx4) \<Rightarrow> (Some (Inl e), ctx4)
                    | (Some (Inr allSections), ctx4) \<Rightarrow>
                        (let ctx5 = ctx4\<lparr>visitedFiles := visitedFiles ctx4 - {resolvedPath}\<rparr>;
                             ctx6 = ctx5\<lparr>basePath := oldBasePath\<rparr>;
                             combinedContent =
                               combineSections 0 promptPath (delimiterStyle ctx6) allSections
                         in case AddWords ctx6 (countWords combinedContent) of
                              (Some e, ctx7) \<Rightarrow> (Some (Inl e), ctx7)
                            | (None, ctx7) \<Rightarrow>
                                (Some (Inr \<lparr>Source = promptPath, Content = combinedContent,
                                            Type = PromptOp\<rparr>), ctx7)))))"
| "processOperations n w [] ctx = (Some (Inr []), ctx)"
| "processOperations n w (op # ops) ctx =
     (case processOperation n w op ctx of
        (None, ctx1) \<Rightarrow> (None, ctx1)
      | (Some (Inl e), ctx1) \<Rightarrow> (Some (Inl e), ctx1)
      | (Some (Inr section), ctx1) \<Rightarrow>
          (case processOperations n w ops ctx1 of
             (Some (Inr sections), ctx2) \<Rightarrow> (Some (Inr (section # sections)), ctx2)
           | (r, ctx2) \<Rightarrow> (r, ctx2)))"

section \<open>Rendering and the entry point\<close>

definition TrimLeftNewlines :: "string \<Rightarrow> string" where
  "TrimLeftNewlines s = dropWhile (\<lambda>c. c = CHR 0x0A) s"

definition TrimRightNewlines :: "string \<Rightarrow> string" where
  "TrimRightNewlines s = rev (dropWhile (\<lambda>c. c = CHR 0x0A) (rev s))"

text \<open>The loop of \<open>compileOutput\<close>, with the index of the section.\<close>

fun renderSections :: "nat \<Rightarrow> string \<Rightarrow> ContentSection list \<Rightarrow> string" where
  "renderSections i style [] = []"
| "renderSections i style (section # sections) =
     (if style \<noteq> ''none''
      then (if i = 0 then TrimLeftNewlines (formatSectionHeader (Source section) style)
            else formatSectionHeader (Source section) style)
      else []) @
     Content section @
     renderSections (Suc i) style sections"

definition compileOutput :: "ContentSection list \<Rightarrow> string \<Rightarrow> string" where
  "compileOutput sections style = TrimRightNewlines (renderSections 0 style sections) @ ''\<newline>''"

text \<open>
  \<open>processPromptFile\<close> returns the error (or success) and the effects of the run.
  The empty \<open>outputFile\<close> means the standard output.
\<close>

definition processPromptFile ::
  "nat \<Rightarrow> world \<Rightarrow> string \<Rightarrow> string \<Rightarrow> int \<Rightarrow> string \<Rightarrow> (error + unit) option \<times> event list" where
  "processPromptFile n w promptFile outputFile limit style =
     (let ctx = NewProcessingContext promptFile limit style []
      in case validatePromptFileStructure n w promptFile ctx of
           (None, ctxv) \<Rightarrow> (None, events ctxv)
         | (Some (Inl e), ctxv) \<Rightarrow> (Some (Inl e), events ctxv)
         | (Some (Inr u), ctxv) \<Rightarrow>
             (let ctx0 = NewProcessingContext promptFile limit style (events ctxv)
              in case parsePromptFile w promptFile ctx0 of
                   (Inl e, ctx1) \<Rightarrow> (Some (Inl e), events ctx1)
                 | (Inr pf, ctx1) \<Rightarrow>
                     (case processOperations n w (rangeOps pf) ctx1 of
                        (None, ctx2) \<Rightarrow> (None, events ctx2)
                      | (Some (Inl e), ctx2) \<Rightarrow> (Some (Inl e), events ctx2)
                      | (Some (Inr sections), ctx2) \<Rightarrow>
                          (let output = compileOutput sections style
                           in if outputFile = []
                              then (Some (Inr ()), events ctx2 @ [EvStdout output])
                              else if writable w outputFile
                              then (Some (Inr ()), events ctx2 @ [EvWriteFile outputFile output])
                              else (Some (Inl (ErrWriteFailed outputFile)),
                                    events ctx2 @ [EvWriteFile outputFile output])))))"

section \<open>Properties named by the specification\<close>

text \<open>A text ends with exactly one line terminator: its last byte is a newline, the one before is not.\<close>

definition endsWithOneNewline :: "string \<Rightarrow> bool" where
  "endsWithOneNewline s =
     (case rev s of
        [] \<Rightarrow> False
      | c # cs \<Rightarrow> c = CHR 0x0A \<and> (case cs of [] \<Rightarrow> True | d # ds \<Rightarrow> d \<noteq> CHR 0x0A))"

text \<open>The events that write to the primary output stream or to the destination file.\<close>

fun isOutput :: "event \<Rightarrow> bool" where
  "isOutput (EvStdout s) = True"
| "isOutput (EvWriteFile p s) = True"
| "isOutput e = False"

text \<open>Every effect recorded in a context has the property \<open>P\<close>.\<close>

definition eventsAll :: "(event \<Rightarrow> bool) \<Rightarrow> ProcessingContext \<Rightarrow> bool" where
  "eventsAll P ctx = (\<forall>e \<in> set (events ctx). P e)"

text \<open>A context whose run has written nothing yet.\<close>

definition silent :: "ProcessingContext \<Rightarrow> bool" where
  "silent ctx = eventsAll (\<lambda>e. \<not> isOutput e) ctx"

text \<open>The events that read a file as a whole.\<close>

fun isRead :: "event \<Rightarrow> bool" where
  "isRead (EvReadFile p) = True"
| "isRead e = False"

text \<open>The source label of the section of an operation.\<close>

definition sourceLabel :: "Operation \<Rightarrow> string" where
  "sourceLabel op = (if fst (GetType op) = TextOp then ''text'' else GetValue op)"

text \<open>The words of the contents of a list of sections.\<close>

definition sectionWords :: "ContentSection list \<Rightarrow> int" where
  "sectionWords sections = sum_list (map (\<lambda>s. countWords (Content s)) sections)"

text \<open>A path element that cleaning keeps: not empty, not a dot or two, and without a slash.\<close>

definition plainElem :: "string \<Rightarrow> bool" where
  "plainElem e = (e \<noteq> [] \<and> e \<noteq> ''.'' \<and> e \<noteq> ''..'' \<and> CHR ''/'' \<notin> set e)"

section \<open>Example documents\<close>

definition fileOp :: "string \<Rightarrow> Operation" where
  "fileOp p = \<lparr>File = Some p, Prompt = None, Command = None, Text = None\<rparr>"

definition promptOp :: "string \<Rightarrow> Operation" where
  "promptOp p = \<lparr>File = None, Prompt = Some p, Command = None, Text = None\<rparr>"

definition commandOp :: "string \<Rightarrow> Operation" where
  "commandOp c = \<lparr>File = None, Prompt = None, Command = Some c, Text = None\<rparr>"

definition textOp :: "string \<Rightarrow> Operation" where
  "textOp t = \<lparr>File = None, Prompt = None, Command = None, Text = Some t\<rparr>"

text \<open>
  A world from a list of files, the decoding of each document text, and the result
  of each command; the working directory is \<open>/work\<close>.
\<close>

definition mkWorld ::
  "(string \<times> string) list \<Rightarrow> (string \<times> Operation list) list \<Rightarrow>
   (string \<times> string \<times> outcome) list \<Rightarrow> world" where
  "mkWorld fl docs cmds =
     \<lparr>cwd = ''/work'',
      files = map_of (map (\<lambda>(p, d). (p, Regular d)) fl),
      unmarshal = (\<lambda>d. case map_of docs d of
                         Some ops \<Rightarrow> Inr \<lparr>PromptOps = Some ops\<rparr>
                       | None \<Rightarrow> Inl ''yaml: unmarshal errors''),
      run = (\<lambda>c. case map_of cmds c of Some r \<Rightarrow> r | None \<Rightarrow> ([], Exited 127)),
      writable = (\<lambda>p. True)\<rparr>"

text \<open>
  \<open>/a/main.yml\<close> includes \<open>sub/nested.yml\<close>, which includes its neighbour \<open>deep.yml\<close>
  in \<open>/a/sub\<close>.
\<close>

definition nestedTree :: world where
  "nestedTree =
     mkWorld [(''/a/main.yml'', ''prompt: [{prompt: sub/nested.yml}]''),
              (''/a/sub/nested.yml'', ''prompt: [{prompt: deep.yml}]''),
              (''/a/sub/deep.yml'', ''prompt: [{text: hello}]'')]
             [(''prompt: [{prompt: sub/nested.yml}]'', [promptOp ''sub/nested.yml'']),
              (''prompt: [{prompt: deep.yml}]'', [promptOp ''deep.yml'']),
              (''prompt: [{text: hello}]'', [textOp ''hello''])]
             []"

text \<open>
  \<open>/a/main.yml\<close> runs a command and includes \<open>sub/b.yml\<close>, which includes
  \<open>../main.yml\<close>, that is \<open>/a/main.yml\<close> again. There is also an unrelated
  document \<open>/main.yml\<close> with a text.
\<close>

definition crossCycle :: world where
  "crossCycle =
     mkWorld [(''/a/main.yml'', ''prompt: [{command: echo hi}, {prompt: sub/b.yml}]''),
              (''/a/sub/b.yml'', ''prompt: [{prompt: ../main.yml}]''),
              (''/main.yml'', ''prompt: [{text: other}]'')]
             [(''prompt: [{command: echo hi}, {prompt: sub/b.yml}]'',
                 [commandOp ''echo hi'', promptOp ''sub/b.yml'']),
              (''prompt: [{prompt: ../main.yml}]'', [promptOp ''../main.yml'']),
              (''prompt: [{text: other}]'', [textOp ''other''])]
             [(''echo hi'', (''hi\<newline>'', Exited 0))]"

text \<open>
  In the working directory: \<open>twice.yml\<close> includes \<open>leaf.yml\<close> two times, \<open>once.yml\<close>
  includes it one time, \<open>blank.yml\<close> is included by \<open>space.yml\<close> and holds one space,
  \<open>outer.yml\<close> includes \<open>space.yml\<close>,
  \<open>empty.yml\<close> has no operation, \<open>words.yml\<close> has a text and a file, \<open>glued.yml\<close>
  has a text, \<open>cmd.yml\<close> and \<open>warn.yml\<close> each run a command, and \<open>a.yml\<close> and \<open>b.yml\<close>
  include each other.
\<close>

definition workDir :: world where
  "workDir =
     mkWorld [(''/work/twice.yml'', ''prompt: [{prompt: leaf.yml}, {prompt: leaf.yml}]''),
              (''/work/once.yml'', ''prompt: [{prompt: leaf.yml}]''),
              (''/work/leaf.yml'', ''prompt: [{text: a b}]''),
              (''/work/outer.yml'', ''prompt: [{prompt: space.yml}]''),
              (''/work/space.yml'', ''prompt: [{prompt: blank.yml}]''),
              (''/work/blank.yml'', ''prompt: [{text: ' '}]''),
              (''/work/empty.yml'', ''prompt: []''),
              (''/work/words.yml'', ''prompt: [{text: one two}, {file: data.txt}]''),
              (''/work/data.txt'', ''three\<newline>''),
              (''/work/glued.yml'', ''prompt: [{text: hello}]''),
              (''/work/cmd.yml'', ''prompt: [{command: echo a b}]''),
              (''/work/a.yml'', ''prompt: [{command: echo a b}, {prompt: b.yml}]''),
              (''/work/b.yml'', ''prompt: [{prompt: a.yml}]''),
              (''/work/warn.yml'', ''prompt: [{command: echo output; exit 1}]'')]
             [(''prompt: [{prompt: leaf.yml}, {prompt: leaf.yml}]'',
                 [promptOp ''leaf.yml'', promptOp ''leaf.yml'']),
              (''prompt: [{prompt: leaf.yml}]'', [promptOp ''leaf.yml'']),
              (''prompt: [{text: a b}]'', [textOp ''a b'']),
              (''prompt: [{prompt: space.yml}]'', [promptOp ''space.yml'']),
              (''prompt: [{prompt: blank.yml}]'', [promptOp ''blank.yml'']),
              (''prompt: [{text: ' '}]'', [textOp '' '']),
              (''prompt: []'', []),
              (''prompt: [{text: one two}, {file: data.txt}]'',
                 [textOp ''one two'', fileOp ''data.txt'']),
              (''prompt: [{text: hello}]'', [textOp ''hello'']),
              (''prompt: [{command: echo a b}]'', [commandOp ''echo a b'']),
              (''prompt: [{command: echo a b}, {prompt: b.yml}]'',
                 [commandOp ''echo a b'', promptOp ''b.yml'']),
              (''prompt: [{prompt: a.yml}]'', [promptOp ''a.yml'']),
              (''prompt: [{command: echo output; exit 1}]'', [commandOp ''echo output; exit 1''])]
             [(''echo a b'', (''a b\<newline>'', Exited 0)),
              (''echo output; exit 1'', (''output\<newline>'', Exited 1)),
              (''echo oops; exit 2'', (''oops\<newline>'', Exited 2))]"

section \<open>Path resolution\<close>

lemma processPromptOperation_basePath_irrelevant:
  assumes "IsAbs p"
  shows "fst (processPromptOperation n w p (ctx\<lparr>basePath := b\<rparr>)) =
         fst (processPromptOperation n w p ctx)"
proof (cases n)
  case 0
  then show ?thesis by simp
next
  case (Suc m)
  show ?thesis using assms unfolding Suc
    by (simp add: ResolvePath_def IsVisited_def getVisitedPaths_def parsePromptFile_def emit_def
        MarkVisited_def AddWords_def Let_def
        split: prod.splits sum.splits option.splits)
qed

text \<open>
  C10. \<open>ResolvePath\<close> returns an absolute path as it is given, whatever the base
  directory, and joins only a relative path to the base directory. So the result
  of a \<open>file\<close> or \<open>prompt\<close> operation with an absolute path does not depend on the
  base directory of the current document.
\<close>

theorem ResolvePath_absolute_verbatim:
  "(IsAbs p \<longrightarrow> ResolvePath ctx p = p \<and> ResolvePath (ctx\<lparr>basePath := b\<rparr>) p = p) \<and>
   (\<not> IsAbs p \<longrightarrow> ResolvePath ctx p = Join [basePath ctx, p]) \<and>
   (IsAbs p \<longrightarrow>
      fst (processFileOperation w p (ctx\<lparr>basePath := b\<rparr>)) = fst (processFileOperation w p ctx) \<and>
      fst (processPromptOperation n w p (ctx\<lparr>basePath := b\<rparr>)) =
      fst (processPromptOperation n w p ctx))"
  by (simp add: processPromptOperation_basePath_irrelevant ResolvePath_def processFileOperation_def emit_def AddWords_def Let_def
      split: prod.splits sum.splits option.splits)

theorem ResolvePath_absolute_verbatim_witness:
  "IsAbs ''/etc/motd'' \<and> \<not> IsAbs ''sub/x.txt'' \<and>
   ResolvePath (NewProcessingContext ''/a/main.yml'' 10 ''xml'' []) ''/etc/motd'' = ''/etc/motd'' \<and>
   ResolvePath (NewProcessingContext ''/a/main.yml'' 10 ''xml'' []) ''sub/x.txt'' = ''/a/sub/x.txt''"
  using ResolvePath_absolute_verbatim
          [of "''/etc/motd''" "NewProcessingContext ''/a/main.yml'' 10 ''xml'' []" "''/b''" workDir 1]
        ResolvePath_absolute_verbatim
          [of "''sub/x.txt''" "NewProcessingContext ''/a/main.yml'' 10 ''xml'' []" "''/b''" workDir 1]
  by (simp add: IsAbs_def NewProcessingContext_def Dir_def Clean_def)

text \<open>
  C1. The validation walk does not change the base directory when it enters a
  nested document: \<open>validatePromptFileStructure\<close> resolves every \<open>prompt\<close> path with
  the base directory of the root document. In \<open>nestedTree\<close> the document
  \<open>/a/sub/nested.yml\<close> includes \<open>deep.yml\<close>; the walk looks for \<open>/a/deep.yml\<close>, not for
  \<open>/a/sub/deep.yml\<close>, and fails, while the execution walk of the same tree reads
  \<open>/a/sub/deep.yml\<close>.
\<close>

theorem validator_keeps_root_base_directory:
  "validatePromptFileStructure 3 nestedTree ''/a/main.yml''
     (NewProcessingContext ''/a/main.yml'' 100 ''xml'' []) =
   (Some (Inl (ErrFileNotFound ''/a/deep.yml'')),
    \<lparr>basePath = ''/a'', visitedFiles = {}, maxWords = 100, wordCount = 0,
     delimiterStyle = ''xml'',
     events = [EvReadFile ''/a/main.yml'', EvReadFile ''/a/sub/nested.yml'',
               EvReadFile ''/a/deep.yml'']\<rparr>) \<and>
   Join [Dir ''/a/sub/nested.yml'', ''deep.yml''] = ''/a/sub/deep.yml'' \<and>
   events (snd (processOperations 3 nestedTree [promptOp ''sub/nested.yml'']
                  (NewProcessingContext ''/a/main.yml'' 100 ''xml'' []))) =
     [EvReadFile ''/a/sub/nested.yml'', EvReadFile ''/a/sub/deep.yml'']"
  by code_simp

section \<open>Cycles and repeated inclusion\<close>

text \<open>
  C2. In \<open>crossCycle\<close> the documents \<open>/a/main.yml\<close> and \<open>/a/sub/b.yml\<close> include each
  other. The validation walk resolves \<open>../main.yml\<close> with the root's directory,
  finds the unrelated \<open>/main.yml\<close> and succeeds; the execution walk then runs the
  command of \<open>/a/main.yml\<close> two times before it reports the circular reference.
  For \<open>a.yml\<close> and \<open>b.yml\<close>, which lie in one directory, the validation walk finds
  the cycle and no command runs.
\<close>

theorem cycle_across_directories_runs_command:
  "processPromptFile 4 crossCycle ''/a/main.yml'' [] 100 ''xml'' =
   (Some (Inl (ErrCircularReference ''/a/sub/b.yml'' {''/a/main.yml'', ''/a/sub/b.yml''})),
    [EvReadFile ''/a/main.yml'', EvReadFile ''/a/sub/b.yml'', EvReadFile ''/main.yml'',
     EvReadFile ''/a/main.yml'', EvExec ''echo hi'',
     EvReadFile ''/a/sub/b.yml'', EvReadFile ''/a/main.yml'', EvExec ''echo hi'']) \<and>
   processPromptFile 4 workDir ''/work/a.yml'' [] 100 ''xml'' =
   (Some (Inl (ErrCircularReference ''/work/a.yml'' {''/work/a.yml'', ''/work/b.yml''})),
    [EvReadFile ''/work/a.yml'', EvReadFile ''/work/b.yml''])"
  by code_simp

text \<open>
  C6. \<open>twice.yml\<close> includes \<open>leaf.yml\<close> two times; the tree has no cycle. When the
  root is given by a relative path, the execution walk marks \<open>/work/leaf.yml\<close> as
  visited and then deletes the key \<open>leaf.yml\<close>, so the mark stays and the second
  inclusion fails as a circular reference. The validation walk succeeds, and so
  does the whole run when the root is given by its absolute path. The tree
  \<open>nestedTree\<close> has no cycle either, and its run fails in the validation walk, which
  looks for \<open>deep.yml\<close> in the directory of the root.
\<close>

theorem repeated_inclusion_fails_from_relative_root:
  "fst (validatePromptFileStructure 3 workDir ''twice.yml''
          (NewProcessingContext ''twice.yml'' 100 ''none'' [])) = Some (Inr ()) \<and>
   fst (processPromptFile 3 workDir ''twice.yml'' [] 100 ''none'') =
     Some (Inl (ErrCircularReference ''leaf.yml'' {''/work/leaf.yml''})) \<and>
   fst (processPromptFile 3 workDir ''/work/twice.yml'' [] 100 ''none'') = Some (Inr ()) \<and>
   fst (processPromptFile 3 nestedTree ''/a/main.yml'' [] 100 ''xml'') =
     Some (Inl (ErrFileNotFound ''/a/deep.yml''))"
  by code_simp

section \<open>Section contents\<close>

text \<open>
  C7. The content of a section is the text of the operation as it is: the section
  of the text operation \<open>hello\<close> has the content \<open>hello\<close>, with no line terminator,
  and the engine prints the sections of \<open>glued.yml\<close> under the style \<open>none\<close>
  without one between them.
\<close>

theorem text_section_keeps_content_verbatim:
  "fst (processTextOperation ''hello'' (NewProcessingContext ''/work/glued.yml'' 100 ''none'' [])) =
     Inr \<lparr>Source = ''text'', Content = ''hello'', Type = TextOp\<rparr> \<and>
   \<not> endsWithOneNewline ''hello'' \<and>
   compileOutput [\<lparr>Source = ''text'', Content = ''hello'', Type = TextOp\<rparr>,
                  \<lparr>Source = ''text'', Content = ''world'', Type = TextOp\<rparr>] ''none'' =
     ''helloworld\<newline>''"
  by code_simp

section \<open>Section headers\<close>

text \<open>
  C8. The header of a section with source label \<open>S\<close> is the template of the style:
  \<open>xml\<close>, \<open>minimal\<close>, \<open>full\<close> and \<open>none\<close> each have their own, and every other style
  gives the \<open>xml\<close> template.
\<close>

theorem formatSectionHeader_templates:
  "formatSectionHeader S ''xml'' = ''\<newline><!-- pcp-source: '' @ S @ '' -->\<newline>'' \<and>
   formatSectionHeader S ''minimal'' = ''\<newline>=== PCP SOURCE: '' @ S @ '' ===\<newline>'' \<and>
   formatSectionHeader S ''full'' =
     ''\<newline>----------------------------------\<newline>BEGIN: '' @ S @
     ''\<newline>----------------------------------\<newline>'' \<and>
   formatSectionHeader S ''none'' = ''\<newline>'' \<and>
   (style \<notin> {''xml'', ''minimal'', ''full'', ''none''} \<longrightarrow>
      formatSectionHeader S style = ''\<newline><!-- pcp-source: '' @ S @ '' -->\<newline>'')"
  by (simp add: formatSectionHeader_def)

theorem formatSectionHeader_templates_witness:
  "''fancy'' \<notin> {''xml'', ''minimal'', ''full'', ''none''} \<and>
   formatSectionHeader ''a.txt'' ''fancy'' = ''\<newline><!-- pcp-source: a.txt -->\<newline>'' \<and>
   formatSectionHeader ''a.txt'' ''minimal'' = ''\<newline>=== PCP SOURCE: a.txt ===\<newline>''"
  using formatSectionHeader_templates [of "''a.txt''" "''fancy''"] by simp

section \<open>Commands\<close>

text \<open>
  C4, as the claim states it, fails: the command of \<open>cmd.yml\<close> exits with status 0
  and prints two words, and under a word budget of 1 the run fails.
\<close>

theorem command_exit_0_over_budget_fails:
  "run workDir ''echo a b'' = (''a b\<newline>'', Exited 0) \<and>
   processPromptFile 1 workDir ''/work/cmd.yml'' [] 1 ''xml'' =
     (Some (Inl (ErrWordLimitExceeded 2 1)),
      [EvReadFile ''/work/cmd.yml'', EvReadFile ''/work/cmd.yml'', EvExec ''echo a b''])"
  by code_simp

text \<open>
  C4, amended. A command that exits with status 0 gives its output as the section
  content; one that exits with status 1 does so too, after a warning on the
  diagnostic stream; both under the condition that the words of the output fit in
  the budget, and otherwise the operation fails with \<open>WordLimitExceeded\<close>. Every other
  outcome fails with \<open>CommandFailed\<close>, which carries the command and the outcome, and
  the output is dropped.
\<close>

theorem command_exit_status_policy:
  assumes "run w command = (outputStr, oc)"
  shows
  "(oc = Exited 0 \<and> wordCount ctx + countWords outputStr \<le> maxWords ctx \<longrightarrow>
      processCommandOperation w command ctx =
        (Inr \<lparr>Source = command, Content = outputStr, Type = CommandOp\<rparr>,
         ctx\<lparr>wordCount := wordCount ctx + countWords outputStr,
             events := events ctx @ [EvExec command]\<rparr>)) \<and>
   (oc = Exited 1 \<and> wordCount ctx + countWords outputStr \<le> maxWords ctx \<longrightarrow>
      processCommandOperation w command ctx =
        (Inr \<lparr>Source = command, Content = outputStr, Type = CommandOp\<rparr>,
         ctx\<lparr>wordCount := wordCount ctx + countWords outputStr,
             events := events ctx @ [EvExec command, EvStderr (exitWarning command)]\<rparr>)) \<and>
   (oc \<noteq> Exited 0 \<and> oc \<noteq> Exited 1 \<longrightarrow>
      processCommandOperation w command ctx =
        (Inl (ErrCommandFailed command oc), ctx\<lparr>events := events ctx @ [EvExec command]\<rparr>)) \<and>
   ((oc = Exited 0 \<or> oc = Exited 1) \<and> maxWords ctx < wordCount ctx + countWords outputStr \<longrightarrow>
      fst (processCommandOperation w command ctx) =
        Inl (ErrWordLimitExceeded (wordCount ctx + countWords outputStr) (maxWords ctx)))"
  using assms
  by (cases oc)
     (auto simp: processCommandOperation_def cmdError_def ExitCode_def emit_def AddWords_def Let_def)

theorem command_exit_status_policy_witness:
  "run workDir ''echo output; exit 1'' = (''output\<newline>'', Exited 1) \<and>
   processCommandOperation workDir ''echo output; exit 1''
       (NewProcessingContext ''/work/warn.yml'' 100 ''xml'' []) =
     (Inr \<lparr>Source = ''echo output; exit 1'', Content = ''output\<newline>'', Type = CommandOp\<rparr>,
      \<lparr>basePath = ''/work'', visitedFiles = {}, maxWords = 100, wordCount = 1,
       delimiterStyle = ''xml'',
       events = [EvExec ''echo output; exit 1'',
                 EvStderr (exitWarning ''echo output; exit 1'')]\<rparr>) \<and>
   processCommandOperation workDir ''echo oops; exit 2''
       (NewProcessingContext ''/work/warn.yml'' 100 ''xml'' []) =
     (Inl (ErrCommandFailed ''echo oops; exit 2'' (Exited 2)),
      \<lparr>basePath = ''/work'', visitedFiles = {}, maxWords = 100, wordCount = 0,
       delimiterStyle = ''xml'', events = [EvExec ''echo oops; exit 2'']\<rparr>)"
proof -
  have r1: "run workDir ''echo output; exit 1'' = (''output\<newline>'', Exited 1)"
    by code_simp
  have r2: "run workDir ''echo oops; exit 2'' = (''oops\<newline>'', Exited 2)"
    by code_simp
  have c: "countWords ''output\<newline>'' = 1"
    by code_simp
  have b: "NewProcessingContext ''/work/warn.yml'' 100 ''xml'' [] =
     \<lparr>basePath = ''/work'', visitedFiles = {}, maxWords = 100, wordCount = 0,
      delimiterStyle = ''xml'', events = []\<rparr>"
    by code_simp
  show ?thesis
    using command_exit_status_policy [OF r1, of "NewProcessingContext ''/work/warn.yml'' 100 ''xml'' []"]
          command_exit_status_policy [OF r2, of "NewProcessingContext ''/work/warn.yml'' 100 ''xml'' []"]
    by (simp add: r1 c b)
qed

section \<open>Failures write nothing\<close>

lemma silent_iff: "silent ctx = (\<forall>e \<in> set (events ctx). \<not> isOutput e)"
  by (simp add: silent_def eventsAll_def)

lemma emit_silent: "\<not> isOutput e \<Longrightarrow> silent ctx \<Longrightarrow> silent (emit e ctx)"
  by (simp add: silent_iff emit_def)

lemma AddWords_silent: "silent (snd (AddWords ctx c)) = silent ctx"
  by (simp add: silent_iff AddWords_def Let_def)

lemma parsePromptFile_events:
  "P (EvReadFile (Abs w p)) \<Longrightarrow> eventsAll P ctx \<Longrightarrow> eventsAll P (snd (parsePromptFile w p ctx))"
  by (simp add: parsePromptFile_def Let_def emit_def eventsAll_def split: option.splits sum.splits)

lemma parsePromptFile_silent: "silent ctx \<Longrightarrow> silent (snd (parsePromptFile w p ctx))"
  by (simp add: silent_def parsePromptFile_events)

lemma processFileOperation_silent: "silent ctx \<Longrightarrow> silent (snd (processFileOperation w p ctx))"
  by (auto simp: processFileOperation_def Let_def AddWords_def silent_iff emit_def
           split: option.splits sum.splits prod.splits)

lemma processCommandOperation_silent:
  "silent ctx \<Longrightarrow> silent (snd (processCommandOperation w c ctx))"
  by (auto simp: processCommandOperation_def Let_def AddWords_def silent_iff emit_def
           split: option.splits sum.splits prod.splits)

lemma processTextOperation_silent: "silent ctx \<Longrightarrow> silent (snd (processTextOperation t ctx))"
  by (auto simp: processTextOperation_def Let_def AddWords_def silent_iff
           split: option.splits sum.splits prod.splits)

lemma eventsAll_updates [simp]:
  "eventsAll P (ctx\<lparr>visitedFiles := v\<rparr>) = eventsAll P ctx"
  "eventsAll P (ctx\<lparr>basePath := b\<rparr>) = eventsAll P ctx"
  "eventsAll P (MarkVisited w ctx p) = eventsAll P ctx"
  by (simp_all add: eventsAll_def MarkVisited_def)

lemma silent_updates [simp]:
  "silent (ctx\<lparr>visitedFiles := v\<rparr>) = silent ctx"
  "silent (ctx\<lparr>basePath := b\<rparr>) = silent ctx"
  "silent (MarkVisited w ctx p) = silent ctx"
  by (simp_all add: silent_def)

text \<open>The validation walk reads documents and has no other effect.\<close>

lemma validate_events:
  assumes rd: "\<And>p. P (EvReadFile p)"
  shows "eventsAll P ctx \<Longrightarrow> eventsAll P (snd (validatePromptFileStructure n w p ctx))"
    and "eventsAll P ctx \<Longrightarrow> eventsAll P (snd (validateNested n w ops ctx))"
proof (induction n w p ctx and n w ops ctx rule: validatePromptFileStructure_validateNested.induct)
  case (1 w filePath ctx)
  then show ?case by simp
next
  case (2 n w filePath ctx)
  show ?case
  proof (cases "IsVisited w ctx (Abs w filePath)")
    case True
    then show ?thesis using "2.prems" by (simp add: Let_def)
  next
    case False
    let ?ctx1 = "MarkVisited w ctx (Abs w filePath)"
    obtain r ctx2 where p: "parsePromptFile w filePath ?ctx1 = (r, ctx2)"
      by (cases "parsePromptFile w filePath ?ctx1")
    have s2: "eventsAll P ctx2"
      using parsePromptFile_events [of P w filePath ?ctx1] rd "2.prems" p by simp
    show ?thesis
    proof (cases r)
      case (Inl e)
      then show ?thesis using False p s2 by (simp add: Let_def)
    next
      case (Inr pf)
      have "eventsAll P (snd (validateNested n w (rangeOps pf) ctx2))"
        using "2.IH" [OF refl False refl p [unfolded Inr, symmetric] refl s2] .
      then show ?thesis using False p Inr by (auto simp: Let_def split: prod.splits)
    qed
  qed
next
  case (3 n w ctx)
  then show ?case by simp
next
  case (4 n w op ops ctx)
  show ?case
  proof (cases "fst (GetType op) = PromptOp")
    case False
    then show ?thesis using "4.IH"(3) "4.prems" by simp
  next
    case True
    let ?np = "ResolvePath ctx (GetValue op)"
    obtain r ctx1 where v: "validatePromptFileStructure n w ?np ctx = (r, ctx1)"
      by (cases "validatePromptFileStructure n w ?np ctx")
    have s1: "eventsAll P ctx1"
      using "4.IH"(1) [OF True refl "4.prems"] v by simp
    show ?thesis
    proof (cases "r = Some (Inr ())")
      case True2: True
      have "eventsAll P (snd (validateNested n w ops ctx1))"
        using "4.IH"(2) [OF True refl v [unfolded True2, symmetric] refl refl s1] .
      then show ?thesis using True v True2 by (auto simp: Let_def)
    next
      case False
      then show ?thesis using True v s1
        by (auto simp: Let_def split: option.splits sum.splits)
    qed
  qed
qed

lemma validate_silent:
  "silent ctx \<Longrightarrow> silent (snd (validatePromptFileStructure n w p ctx))"
  "silent ctx \<Longrightarrow> silent (snd (validateNested n w ops ctx))"
  unfolding silent_def by (rule validate_events; simp)+

text \<open>
  A failure of the validation walk ends the run: the run returns the same error, and
  all it has done is to read documents.
\<close>

lemma validation_failure_stops_the_run:
  assumes "validatePromptFileStructure n w promptFile
             (NewProcessingContext promptFile limit style []) = (Some (Inl e), ctxv)"
  shows "processPromptFile n w promptFile outputFile limit style = (Some (Inl e), events ctxv)"
    and "\<forall>ev \<in> set (events ctxv). isRead ev"
proof -
  show "processPromptFile n w promptFile outputFile limit style = (Some (Inl e), events ctxv)"
    using assms by (simp add: processPromptFile_def)
  have "eventsAll isRead (NewProcessingContext promptFile limit style [])"
    by (simp add: eventsAll_def NewProcessingContext_def)
  then have "eventsAll isRead (snd (validatePromptFileStructure n w promptFile
                                     (NewProcessingContext promptFile limit style [])))"
    by (rule validate_events(1) [rotated]) simp
  then show "\<forall>ev \<in> set (events ctxv). isRead ev"
    using assms by (simp add: eventsAll_def)
qed

lemma process_silent:
  "silent ctx \<Longrightarrow> silent (snd (processOperation n w op ctx))"
  "silent ctx \<Longrightarrow> silent (snd (processPromptOperation n w p ctx))"
  "silent ctx \<Longrightarrow> silent (snd (processOperations n w ops ctx))"
proof (induction n w op ctx and n w p ctx and n w ops ctx
       rule: processOperation_processPromptOperation_processOperations.induct)
  case (1 n w op ctx)
  obtain t e where g: "GetType op = (t, e)"
    by (cases "GetType op")
  show ?case
  proof (cases e)
    case (Some err)
    then show ?thesis using g "1.prems" by (cases t) simp_all
  next
    case None
    show ?thesis
    proof (cases t)
      case FileOp
      then show ?thesis
        using g None processFileOperation_silent [OF "1.prems", of w "GetValue op"]
        by (auto split: prod.splits)
    next
      case PromptOp
      then show ?thesis
        using g None "1.IH" [OF g [symmetric] PromptOp None "1.prems"] by simp
    next
      case CommandOp
      then show ?thesis
        using g None processCommandOperation_silent [OF "1.prems", of w "GetValue op"]
        by (auto split: prod.splits)
    next
      case TextOp
      then show ?thesis
        using g None processTextOperation_silent [OF "1.prems", of "GetValue op"]
        by (auto split: prod.splits)
    qed
  qed
next
  case (2 w promptPath ctx)
  then show ?case by simp
next
  case (3 n w promptPath ctx)
  let ?rp = "ResolvePath ctx promptPath"
  show ?case
  proof (cases "IsVisited w ctx ?rp")
    case True
    then show ?thesis using "3.prems" by (simp add: Let_def)
  next
    case False
    obtain r ctx1 where p: "parsePromptFile w ?rp ctx = (r, ctx1)"
      by (cases "parsePromptFile w ?rp ctx")
    have s1: "silent ctx1"
      using parsePromptFile_silent [OF "3.prems", of w ?rp] p by simp
    show ?thesis
    proof (cases r)
      case (Inl e)
      then show ?thesis using False p s1 by (simp add: Let_def)
    next
      case (Inr pf)
      let ?ctx3 = "MarkVisited w (ctx1\<lparr>basePath := Dir ?rp\<rparr>) ?rp"
      have "silent ?ctx3" using s1 by simp
      then have s4: "silent (snd (processOperations n w (rangeOps pf) ?ctx3))"
        using "3.IH" [OF refl False p [unfolded Inr, symmetric] refl refl refl refl] by simp
      obtain r4 ctx4 where q: "processOperations n w (rangeOps pf) ?ctx3 = (r4, ctx4)"
        by (cases "processOperations n w (rangeOps pf) ?ctx3")
      have "silent ctx4" using s4 q by simp
      then show ?thesis using False p Inr q
        by (auto simp: Let_def AddWords_def silent_iff split: option.splits sum.splits)
    qed
  qed
next
  case (4 n w ctx)
  then show ?case by simp
next
  case (5 n w op ops ctx)
  obtain r ctx1 where o: "processOperation n w op ctx = (r, ctx1)"
    by (cases "processOperation n w op ctx")
  have s1: "silent ctx1" using "5.IH"(1) [OF "5.prems"] o by simp
  show ?case
  proof (cases r)
    case None
    then show ?thesis using o s1 by simp
  next
    case (Some x)
    show ?thesis
    proof (cases x)
      case (Inl e)
      then show ?thesis using o s1 Some by simp
    next
      case (Inr sec)
      have "silent (snd (processOperations n w ops ctx1))"
        using "5.IH"(2) [OF o [symmetric] Some Inr s1] .
      then show ?thesis using o Some Inr
        by (auto split: prod.splits option.splits sum.splits)
    qed
  qed
qed

lemma processOperations_stop_at_failure:
  assumes "processOperations n w ops1 ctx = (Some (Inr sections), ctx1)"
      and "processOperation n w op ctx1 = (Some (Inl e), ctx2)"
  shows "processOperations n w (ops1 @ op # ops2) ctx = (Some (Inl e), ctx2)"
  using assms
proof (induction ops1 arbitrary: ctx sections)
  case Nil
  then show ?case by simp
next
  case (Cons a ops1)
  obtain r c where o: "processOperation n w a ctx = (r, c)"
    by (cases "processOperation n w a ctx")
  from Cons.prems(1) o obtain s where r: "r = Some (Inr s)"
    by (auto simp del: processOperation.simps split: option.splits sum.splits prod.splits)
  from Cons.prems(1) o r obtain ss where t: "processOperations n w ops1 c = (Some (Inr ss), ctx1)"
    by (auto simp del: processOperation.simps split: option.splits sum.splits prod.splits)
  have "processOperations n w (ops1 @ op # ops2) c = (Some (Inl e), ctx2)"
    using Cons.IH [OF t Cons.prems(2)] .
  then show ?case using o r by (simp del: processOperation.simps)
qed

lemma processOperations_length:
  "processOperations n w ops ctx = (Some (Inr sections), ctx') \<Longrightarrow> length sections = length ops"
proof (induction ops arbitrary: ctx sections)
  case Nil
  then show ?case by simp
next
  case (Cons a ops)
  obtain r c where o: "processOperation n w a ctx = (r, c)"
    by (cases "processOperation n w a ctx")
  from Cons.prems o obtain s ss where "processOperations n w ops c = (Some (Inr ss), ctx')"
    and "sections = s # ss"
    by (auto simp del: processOperation.simps split: option.splits sum.splits prod.splits)
  then show ?case using Cons.IH by auto
qed

text \<open>
  C5. When a run fails in parsing, in the validation walk or in an operation of the
  execution walk (any failure but that of writing the destination), it has written
  nothing to the standard output and nothing to the destination file. An output
  event is the last event of a run, and before it the validation walk and every
  operation of the root document succeeded. And the walk stops at the first
  operation that fails: the operations after it change neither the error nor the
  state.
\<close>

theorem failure_writes_no_output:
  "(processPromptFile n w promptFile outputFile limit style = (Some (Inl e), evs) \<and>
    e \<noteq> ErrWriteFailed outputFile \<longrightarrow> (\<forall>ev \<in> set evs. \<not> isOutput ev)) \<and>
   (processPromptFile n w promptFile outputFile limit style = (r, evs) \<and>
    ev \<in> set evs \<and> isOutput ev \<longrightarrow>
      (\<exists>ctxv pf ctx1 sections ctx2.
         validatePromptFileStructure n w promptFile
           (NewProcessingContext promptFile limit style []) = (Some (Inr ()), ctxv) \<and>
         parsePromptFile w promptFile
           (NewProcessingContext promptFile limit style (events ctxv)) = (Inr pf, ctx1) \<and>
         processOperations n w (rangeOps pf) ctx1 = (Some (Inr sections), ctx2) \<and>
         length sections = length (rangeOps pf) \<and>
         evs = events ctx2 @ [ev] \<and>
         ev = (if outputFile = [] then EvStdout (compileOutput sections style)
               else EvWriteFile outputFile (compileOutput sections style)))) \<and>
   (processOperations n w pre ctx = (Some (Inr secs), ctxa) \<and>
    processOperation n w op ctxa = (Some (Inl e), ctxb) \<longrightarrow>
      processOperations n w (pre @ op # post) ctx = (Some (Inl e), ctxb))"
proof (intro conjI impI)
  show "processOperations n w (pre @ op # post) ctx = (Some (Inl e), ctxb)"
    if "processOperations n w pre ctx = (Some (Inr secs), ctxa) \<and>
        processOperation n w op ctxa = (Some (Inl e), ctxb)"
    using that processOperations_stop_at_failure by blast
next
  let ?c0 = "NewProcessingContext promptFile limit style []"
  obtain rv ctxv where v: "validatePromptFileStructure n w promptFile ?c0 = (rv, ctxv)"
    by (cases "validatePromptFileStructure n w promptFile ?c0")
  have sv: "silent ctxv"
    using validate_silent(1) [of ?c0 n w promptFile] v
    by (simp add: silent_iff NewProcessingContext_def)
  let ?c1 = "NewProcessingContext promptFile limit style (events ctxv)"
  have s0: "silent ?c1"
    using sv by (simp add: silent_iff NewProcessingContext_def)
  obtain rp ctx1 where p: "parsePromptFile w promptFile ?c1 = (rp, ctx1)"
    by (cases "parsePromptFile w promptFile ?c1")
  have s1: "silent ctx1"
    using parsePromptFile_silent [OF s0, of w promptFile] p by simp
  have s2: "silent c" if "processOperations n w ops ctx1 = (x, c)" for ops x c
    using process_silent(3) [OF s1, of n w ops] that by simp
  show "\<forall>ev \<in> set evs. \<not> isOutput ev"
    if h: "processPromptFile n w promptFile outputFile limit style = (Some (Inl e), evs) \<and>
        e \<noteq> ErrWriteFailed outputFile"
  proof -
    have "silent \<lparr>basePath = b, visitedFiles = vf, maxWords = m, wordCount = c,
                  delimiterStyle = d, events = evs\<rparr>" for b vf m c d
      using h v p sv s1 s2
      by (auto simp: processPromptFile_def Let_def silent_iff simp del: processOperation.simps
               dest: s2 split: option.splits sum.splits prod.splits if_splits)
    then show ?thesis by (simp add: silent_iff)
  qed
  show "\<exists>ctxv pf ctx1 sections ctx2.
         validatePromptFileStructure n w promptFile
           (NewProcessingContext promptFile limit style []) = (Some (Inr ()), ctxv) \<and>
         parsePromptFile w promptFile
           (NewProcessingContext promptFile limit style (events ctxv)) = (Inr pf, ctx1) \<and>
         processOperations n w (rangeOps pf) ctx1 = (Some (Inr sections), ctx2) \<and>
         length sections = length (rangeOps pf) \<and>
         evs = events ctx2 @ [ev] \<and>
         ev = (if outputFile = [] then EvStdout (compileOutput sections style)
               else EvWriteFile outputFile (compileOutput sections style))"
    if h: "processPromptFile n w promptFile outputFile limit style = (r, evs) \<and>
        ev \<in> set evs \<and> isOutput ev"
  proof -
    from h have out: "ev \<in> set evs" "isOutput ev" by simp_all
    have quiet: "ev \<notin> set (events c)" if "silent c" for c
      using that out(2) by (auto simp: silent_iff)
    from h have run: "processPromptFile n w promptFile outputFile limit style = (r, evs)"
      by simp
    have rv: "rv = Some (Inr ())"
      using run v out quiet [OF sv]
      by (auto simp: processPromptFile_def Let_def split: option.splits sum.splits)
    obtain pf where rp: "rp = Inr pf"
      using run v rv p out quiet [OF s1]
      by (cases rp) (auto simp: processPromptFile_def Let_def)
    obtain ro ctx2 where o: "processOperations n w (rangeOps pf) ctx1 = (ro, ctx2)"
      by (cases "processOperations n w (rangeOps pf) ctx1")
    have q2: "ev \<notin> set (events ctx2)"
      using quiet [OF s2 [OF o]] .
    obtain sections where ro: "ro = Some (Inr sections)"
      using run v rv p rp o out q2
      by (auto simp: processPromptFile_def Let_def simp del: processOperation.simps
               split: option.splits sum.splits)
    have len: "length sections = length (rangeOps pf)"
      using processOperations_length o ro by blast
    have last: "evs = events ctx2 @ [ev] \<and>
         ev = (if outputFile = [] then EvStdout (compileOutput sections style)
               else EvWriteFile outputFile (compileOutput sections style))"
      using run v rv p rp o ro out q2
      by (auto simp: processPromptFile_def Let_def simp del: processOperation.simps
               split: if_splits)
    show ?thesis
      using v rv p rp o ro len last by blast
  qed
qed

theorem failure_writes_no_output_witness:
  "processPromptFile 1 workDir ''/work/cmd.yml'' [] 1 ''xml'' =
     (Some (Inl (ErrWordLimitExceeded 2 1)),
      [EvReadFile ''/work/cmd.yml'', EvReadFile ''/work/cmd.yml'', EvExec ''echo a b'']) \<and>
   ErrWordLimitExceeded 2 1 \<noteq> ErrWriteFailed [] \<and>
   \<not> isOutput (EvReadFile ''/work/cmd.yml'') \<and> \<not> isOutput (EvExec ''echo a b'') \<and>
   processPromptFile 1 workDir ''/work/cmd.yml'' [] 2 ''xml'' =
     (Some (Inr ()),
      [EvReadFile ''/work/cmd.yml'', EvReadFile ''/work/cmd.yml'', EvExec ''echo a b'',
       EvStdout ''<!-- pcp-source: echo a b -->\<newline>a b\<newline>'']) \<and>
   isOutput (EvStdout ''<!-- pcp-source: echo a b -->\<newline>a b\<newline>'') \<and>
   processOperations 1 workDir [commandOp ''echo a b'']
       (NewProcessingContext ''/work/cmd.yml'' 2 ''xml''
          [EvReadFile ''/work/cmd.yml'', EvReadFile ''/work/cmd.yml'']) =
     (Some (Inr [\<lparr>Source = ''echo a b'', Content = ''a b\<newline>'', Type = CommandOp\<rparr>]),
      \<lparr>basePath = ''/work'', visitedFiles = {}, maxWords = 2, wordCount = 2,
       delimiterStyle = ''xml'',
       events = [EvReadFile ''/work/cmd.yml'', EvReadFile ''/work/cmd.yml'',
                 EvExec ''echo a b'']\<rparr>) \<and>
   processOperations 1 workDir ([] @ commandOp ''echo a b'' # [textOp ''later''])
       (NewProcessingContext ''/work/cmd.yml'' 1 ''xml'' []) =
     (Some (Inl (ErrWordLimitExceeded 2 1)),
      \<lparr>basePath = ''/work'', visitedFiles = {}, maxWords = 1, wordCount = 2,
       delimiterStyle = ''xml'', events = [EvExec ''echo a b'']\<rparr>)"
proof -
  have fail: "processPromptFile 1 workDir ''/work/cmd.yml'' [] 1 ''xml'' =
     (Some (Inl (ErrWordLimitExceeded 2 1)),
      [EvReadFile ''/work/cmd.yml'', EvReadFile ''/work/cmd.yml'', EvExec ''echo a b''])"
    by code_simp
  have ok: "processPromptFile 1 workDir ''/work/cmd.yml'' [] 2 ''xml'' =
     (Some (Inr ()),
      [EvReadFile ''/work/cmd.yml'', EvReadFile ''/work/cmd.yml'', EvExec ''echo a b'',
       EvStdout ''<!-- pcp-source: echo a b -->\<newline>a b\<newline>''])"
    by code_simp
  have ops: "processOperations 1 workDir [commandOp ''echo a b'']
       (NewProcessingContext ''/work/cmd.yml'' 2 ''xml''
          [EvReadFile ''/work/cmd.yml'', EvReadFile ''/work/cmd.yml'']) =
     (Some (Inr [\<lparr>Source = ''echo a b'', Content = ''a b\<newline>'', Type = CommandOp\<rparr>]),
      \<lparr>basePath = ''/work'', visitedFiles = {}, maxWords = 2, wordCount = 2,
       delimiterStyle = ''xml'',
       events = [EvReadFile ''/work/cmd.yml'', EvReadFile ''/work/cmd.yml'',
                 EvExec ''echo a b'']\<rparr>)"
    by code_simp
  have o1: "processOperations 1 workDir [] (NewProcessingContext ''/work/cmd.yml'' 1 ''xml'' []) =
     (Some (Inr []), NewProcessingContext ''/work/cmd.yml'' 1 ''xml'' [])"
    by simp
  have o2: "processOperation 1 workDir (commandOp ''echo a b'')
       (NewProcessingContext ''/work/cmd.yml'' 1 ''xml'' []) =
     (Some (Inl (ErrWordLimitExceeded 2 1)),
      \<lparr>basePath = ''/work'', visitedFiles = {}, maxWords = 1, wordCount = 2,
       delimiterStyle = ''xml'', events = [EvExec ''echo a b'']\<rparr>)"
    by code_simp
  show ?thesis
    using failure_writes_no_output
            [where n = 1 and w = workDir and promptFile = "''/work/cmd.yml''"
               and outputFile = "[]" and limit = 1 and style = "''xml''"
               and e = "ErrWordLimitExceeded 2 1"
               and evs = "[EvReadFile ''/work/cmd.yml'', EvReadFile ''/work/cmd.yml'',
                           EvExec ''echo a b'']"
               and pre = "[]" and op = "commandOp ''echo a b''" and post = "[textOp ''later'']"
               and ctx = "NewProcessingContext ''/work/cmd.yml'' 1 ''xml'' []"
               and secs = "[]" and ctxa = "NewProcessingContext ''/work/cmd.yml'' 1 ''xml'' []"
               and ctxb = "\<lparr>basePath = ''/work'', visitedFiles = {}, maxWords = 1, wordCount = 2,
                            delimiterStyle = ''xml'', events = [EvExec ''echo a b'']\<rparr>"]
          fail ok ops o1 o2
    by simp
qed

section \<open>The word budget\<close>

lemma countWords_nonneg: "0 \<le> countWords t"
  by (simp add: countWords_def)

lemma sectionWords_nonneg: "0 \<le> sectionWords sections"
  by (induction sections) (simp_all add: sectionWords_def countWords_nonneg)

lemma sectionWords_Cons: "sectionWords (s # ss) = countWords (Content s) + sectionWords ss"
  by (simp add: sectionWords_def)

text \<open>What a successful call of each function of the execution walk went through.\<close>

lemma processOperation_InrE:
  assumes "processOperation n w op ctx = (Some (Inr sec), ctx')"
  obtains
    (File) "GetType op = (FileOp, None)"
           "processFileOperation w (GetValue op) ctx = (Inr sec, ctx')"
  | (Prompt) "GetType op = (PromptOp, None)"
           "processPromptOperation n w (GetValue op) ctx = (Some (Inr sec), ctx')"
  | (Command) "GetType op = (CommandOp, None)"
           "processCommandOperation w (GetValue op) ctx = (Inr sec, ctx')"
  | (Text) "GetType op = (TextOp, None)"
           "processTextOperation (GetValue op) ctx = (Inr sec, ctx')"
  using assms
  by (auto split: prod.splits OperationType.splits option.splits)

lemma processPromptOperation_InrE:
  assumes "processPromptOperation n w p ctx = (Some (Inr sec), ctx')"
  obtains m pf ctx1 sections ctx4 where
    "n = Suc m"
    "\<not> IsVisited w ctx (ResolvePath ctx p)"
    "parsePromptFile w (ResolvePath ctx p) ctx = (Inr pf, ctx1)"
    "processOperations m w (rangeOps pf)
       (MarkVisited w (ctx1\<lparr>basePath := Dir (ResolvePath ctx p)\<rparr>) (ResolvePath ctx p)) =
     (Some (Inr sections), ctx4)"
    "AddWords (ctx4\<lparr>visitedFiles := visitedFiles ctx4 - {ResolvePath ctx p},
                     basePath := basePath ctx1\<rparr>)
       (countWords (combineSections 0 p (delimiterStyle ctx4) sections)) = (None, ctx')"
    "sec = \<lparr>Source = p, Content = combineSections 0 p (delimiterStyle ctx4) sections,
            Type = PromptOp\<rparr>"
proof (cases n)
  case 0
  then show ?thesis using assms by simp
next
  case (Suc m)
  show ?thesis
    using assms that [of m] unfolding Suc
    by (auto simp: Let_def simp del: processOperation.simps
             split: if_splits prod.splits sum.splits option.splits)
qed

lemma processOperations_InrE:
  assumes "processOperations n w (op # ops) ctx = (Some (Inr sections), ctx')"
  obtains sec secs ctx1 where
    "processOperation n w op ctx = (Some (Inr sec), ctx1)"
    "processOperations n w ops ctx1 = (Some (Inr secs), ctx')"
    "sections = sec # secs"
  using assms
  by (auto simp del: processOperation.simps split: prod.splits sum.splits option.splits)

lemma AddWords_NoneD:
  "AddWords ctx c = (None, ctx') \<Longrightarrow>
     ctx' = ctx\<lparr>wordCount := wordCount ctx + c\<rparr> \<and> wordCount ctx + c \<le> maxWords ctx"
  by (auto simp: AddWords_def Let_def split: if_splits)

lemma processFileOperation_charge:
  "processFileOperation w p ctx = (Inr sec, ctx') \<Longrightarrow>
     wordCount ctx' = wordCount ctx + countWords (Content sec)"
  by (auto simp: processFileOperation_def Let_def emit_def AddWords_def
           split: if_splits option.splits prod.splits)

lemma processCommandOperation_charge:
  "processCommandOperation w c ctx = (Inr sec, ctx') \<Longrightarrow>
     wordCount ctx' = wordCount ctx + countWords (Content sec)"
  by (auto simp: processCommandOperation_def Let_def emit_def AddWords_def
           split: if_splits option.splits prod.splits)

lemma processTextOperation_charge:
  "processTextOperation t ctx = (Inr sec, ctx') \<Longrightarrow>
     wordCount ctx' = wordCount ctx + countWords (Content sec)"
  by (auto simp: processTextOperation_def Let_def AddWords_def
           split: if_splits option.splits prod.splits)

lemma parsePromptFile_wordCount:
  "parsePromptFile w p ctx = (r, ctx') \<Longrightarrow>
     wordCount ctx' = wordCount ctx \<and> maxWords ctx' = maxWords ctx"
  by (auto simp: parsePromptFile_def Let_def emit_def split: option.splits sum.splits)

text \<open>
  Each section costs at least the words of its content: a file, a command and a
  text cost that much, a nested document costs more.
\<close>

lemma charge_lower_bound:
  "\<forall>sec ctx'. processOperation n w op ctx = (Some (Inr sec), ctx') \<longrightarrow>
     wordCount ctx + countWords (Content sec) \<le> wordCount ctx'"
  "\<forall>sec ctx'. processPromptOperation n w p ctx = (Some (Inr sec), ctx') \<longrightarrow>
     wordCount ctx + countWords (Content sec) \<le> wordCount ctx'"
  "\<forall>secs ctx'. processOperations n w ops ctx = (Some (Inr secs), ctx') \<longrightarrow>
     wordCount ctx + sectionWords secs \<le> wordCount ctx'"
proof (induction n w op ctx and n w p ctx and n w ops ctx
       rule: processOperation_processPromptOperation_processOperations.induct)
  case (1 n w op ctx)
  show ?case
  proof (intro allI impI)
    fix sec ctx'
    assume a: "processOperation n w op ctx = (Some (Inr sec), ctx')"
    from a show "wordCount ctx + countWords (Content sec) \<le> wordCount ctx'"
    proof (cases rule: processOperation_InrE)
      case File
      then show ?thesis using processFileOperation_charge by fastforce
    next
      case Prompt
      then show ?thesis using "1.IH" [OF Prompt(1) [symmetric] refl refl] by blast
    next
      case Command
      then show ?thesis using processCommandOperation_charge by fastforce
    next
      case Text
      then show ?thesis using processTextOperation_charge by fastforce
    qed
  qed
next
  case (2 w promptPath ctx)
  then show ?case by simp
next
  case (3 n w promptPath ctx)
  show ?case
  proof (intro allI impI)
    fix sec ctx'
    assume a: "processPromptOperation (Suc n) w promptPath ctx = (Some (Inr sec), ctx')"
    from a obtain m pf ctx1 sections ctx4 where
      m: "Suc n = Suc m" and
      nv: "\<not> IsVisited w ctx (ResolvePath ctx promptPath)" and
      p: "parsePromptFile w (ResolvePath ctx promptPath) ctx = (Inr pf, ctx1)" and
      o: "processOperations m w (rangeOps pf)
            (MarkVisited w (ctx1\<lparr>basePath := Dir (ResolvePath ctx promptPath)\<rparr>)
               (ResolvePath ctx promptPath)) = (Some (Inr sections), ctx4)" and
      aw: "AddWords (ctx4\<lparr>visitedFiles := visitedFiles ctx4 - {ResolvePath ctx promptPath},
                          basePath := basePath ctx1\<rparr>)
             (countWords (combineSections 0 promptPath (delimiterStyle ctx4) sections)) =
           (None, ctx')" and
      s: "sec = \<lparr>Source = promptPath,
                 Content = combineSections 0 promptPath (delimiterStyle ctx4) sections,
                 Type = PromptOp\<rparr>"
      by (rule processPromptOperation_InrE)
    from m have mn: "m = n" by simp
    have "wordCount (MarkVisited w (ctx1\<lparr>basePath := Dir (ResolvePath ctx promptPath)\<rparr>)
               (ResolvePath ctx promptPath)) + sectionWords sections \<le> wordCount ctx4"
      using "3.IH" [OF refl nv p [symmetric] refl refl refl refl] o [unfolded mn] by blast
    then have "wordCount ctx \<le> wordCount ctx4"
      using parsePromptFile_wordCount [OF p] sectionWords_nonneg [of sections]
      by (simp add: MarkVisited_def)
    moreover have "wordCount ctx' = wordCount ctx4 + countWords (Content sec)"
      using AddWords_NoneD [OF aw] s by simp
    ultimately show "wordCount ctx + countWords (Content sec) \<le> wordCount ctx'"
      by simp
  qed
next
  case (4 n w ctx)
  then show ?case by (simp add: sectionWords_def)
next
  case (5 n w op ops ctx)
  show ?case
  proof (intro allI impI)
    fix secs ctx'
    assume a: "processOperations n w (op # ops) ctx = (Some (Inr secs), ctx')"
    from a obtain sec rest ctx1 where
      o: "processOperation n w op ctx = (Some (Inr sec), ctx1)" and
      r: "processOperations n w ops ctx1 = (Some (Inr rest), ctx')" and
      e: "secs = sec # rest"
      by (rule processOperations_InrE)
    have "wordCount ctx + countWords (Content sec) \<le> wordCount ctx1"
      using "5.IH"(1) o by blast
    moreover have "wordCount ctx1 + sectionWords rest \<le> wordCount ctx'"
      using "5.IH"(2) [OF o [symmetric] refl refl] r by blast
    ultimately show "wordCount ctx + sectionWords secs \<le> wordCount ctx'"
      by (simp add: e sectionWords_Cons)
  qed
qed

lemma flat_charge:
  assumes "processOperations n w ops ctx = (Some (Inr secs), ctx')"
      and "\<forall>op \<in> set ops. fst (GetType op) \<noteq> PromptOp"
  shows "wordCount ctx' = wordCount ctx + sectionWords secs"
  using assms
proof (induction ops arbitrary: ctx secs)
  case Nil
  then show ?case by (simp add: sectionWords_def)
next
  case (Cons op ops)
  from Cons.prems(1) obtain sec rest ctx1 where
    o: "processOperation n w op ctx = (Some (Inr sec), ctx1)" and
    r: "processOperations n w ops ctx1 = (Some (Inr rest), ctx')" and
    e: "secs = sec # rest"
    by (rule processOperations_InrE)
  have np: "fst (GetType op) \<noteq> PromptOp"
    using Cons.prems(2) by simp
  from o have "wordCount ctx1 = wordCount ctx + countWords (Content sec)"
  proof (cases rule: processOperation_InrE)
    case File
    then show ?thesis using processFileOperation_charge by blast
  next
    case Prompt
    then show ?thesis using np by simp
  next
    case Command
    then show ?thesis using processCommandOperation_charge by blast
  next
    case Text
    then show ?thesis using processTextOperation_charge by blast
  qed
  moreover have "wordCount ctx' = wordCount ctx1 + sectionWords rest"
    using Cons.IH [OF r] Cons.prems(2) by simp
  ultimately show ?case by (simp add: e sectionWords_Cons)
qed

text \<open>
  A newline ends a field and is no part of a longer white-space character, so the
  fields of a text with a newline in it are those before the newline and those
  after it.
\<close>

lemma spaceWidth_bound: "spaceWidth (c # cs) \<le> Suc (length cs)"
  by (cases cs; cases "tl cs") (auto split: list.splits)

lemma spaceWidth_before_newline:
  "spaceWidth (c # a @ CHR 0x0A # b) = spaceWidth (c # a)"
proof (cases a)
  case Nil
  then show ?thesis by (cases b) auto
next
  case (Cons x xs)
  then show ?thesis by (cases xs) auto
qed

lemma FieldsFrom_newline:
  "skip \<le> length a \<Longrightarrow>
   FieldsFrom skip cur (a @ CHR 0x0A # b) = FieldsFrom skip cur a @ Fields b"
proof (induction a arbitrary: skip cur)
  case Nil
  then show ?case by (simp add: Fields_def)
next
  case (Cons c a)
  show ?case
  proof (cases "0 < skip")
    case True
    then have "skip - 1 \<le> length a" using Cons.prems by simp
    then show ?thesis
      using True Cons.IH [of "skip - 1" cur] by simp
  next
    case False
    let ?k = "spaceWidth (c # a)"
    have same: "spaceWidth (c # a @ CHR 0x0A # b) = ?k"
      by (rule spaceWidth_before_newline)
    have k: "?k - 1 \<le> length a"
      using spaceWidth_bound [of c a] by simp
    show ?thesis
    proof (cases "0 < ?k")
      case True
      have "FieldsFrom skip cur ((c # a) @ CHR 0x0A # b) =
              (if cur = [] then [] else [cur]) @ FieldsFrom (?k - 1) [] (a @ CHR 0x0A # b)"
        using False True same by (simp del: spaceWidth.simps)
      also have "\<dots> = (if cur = [] then [] else [cur]) @ FieldsFrom (?k - 1) [] a @ Fields b"
        using Cons.IH [OF k] by simp
      also have "\<dots> = FieldsFrom skip cur (c # a) @ Fields b"
        using False True by (simp del: spaceWidth.simps)
      finally show ?thesis .
    next
      case k0: False
      have "FieldsFrom skip cur ((c # a) @ CHR 0x0A # b) =
              FieldsFrom 0 (cur @ [c]) (a @ CHR 0x0A # b)"
        using False k0 same by (simp del: spaceWidth.simps)
      also have "\<dots> = FieldsFrom 0 (cur @ [c]) a @ Fields b"
        using Cons.IH [of 0 "cur @ [c]"] by simp
      also have "\<dots> = FieldsFrom skip cur (c # a) @ Fields b"
        using False k0 by (simp del: spaceWidth.simps)
      finally show ?thesis .
    qed
  qed
qed

lemma countWords_length: "countWords s = int (length (Fields s))"
  by (simp add: countWords_def Fields_def)

lemma countWords_newline:
  "countWords (a @ CHR 0x0A # b) = countWords a + countWords b"
  using FieldsFrom_newline [of 0 a "[]" b]
  by (simp add: countWords_length Fields_def)

lemma formatSectionHeader_ends:
  "\<exists>h. formatSectionHeader source style = h @ [CHR 0x0A]"
proof -
  have "formatSectionHeader source style \<noteq> [] \<and>
        last (formatSectionHeader source style) = CHR 0x0A"
    by (simp add: formatSectionHeader_def)
  then show ?thesis
    by (metis append_butlast_last_id)
qed

lemma combineSections_start:
  "combineSections (Suc i) p style ss = [] \<or>
   (\<exists>r. combineSections (Suc i) p style ss = CHR 0x0A # r)"
  by (cases ss) simp_all

text \<open>
  In the text that \<open>processPromptOperation\<close> builds, each child content stands
  between newlines, so the text has at least the words of the child contents.
\<close>

lemma sectionWords_le_combined:
  "sectionWords secs \<le> countWords (combineSections i p style secs)"
proof (induction secs arbitrary: i)
  case Nil
  then show ?case by (simp add: sectionWords_def countWords_def)
next
  case (Cons s ss)
  let ?sep = "if i > 0 then [CHR 0x0A] else []"
  let ?R = "combineSections (Suc i) p style ss"
  obtain h where h: "formatSectionHeader (p @ ''->'' @ Source s) style = h @ [CHR 0x0A]"
    using formatSectionHeader_ends by blast
  have shape: "combineSections i p style (s # ss) = (?sep @ h) @ CHR 0x0A # (Content s @ ?R)"
    using h by simp
  have rest: "countWords (Content s @ ?R) = countWords (Content s) + countWords ?R"
  proof (cases "?R = []")
    case True
    then show ?thesis by (simp add: countWords_def)
  next
    case False
    then obtain r where r: "?R = CHR 0x0A # r"
      using combineSections_start [of i p style ss] by blast
    have "countWords ?R = countWords r"
      using countWords_newline [of "[]" r] r by (simp add: countWords_def)
    then show ?thesis
      using countWords_newline [of "Content s" r] r by simp
  qed
  have "countWords (combineSections i p style (s # ss)) =
          countWords (?sep @ h) + countWords (Content s) + countWords ?R"
    unfolding shape countWords_newline rest by simp
  moreover have "0 \<le> countWords (?sep @ h)"
    by (rule countWords_nonneg)
  moreover have "sectionWords ss \<le> countWords ?R"
    by (rule Cons.IH)
  ultimately show ?case
    by (simp add: sectionWords_Cons)
qed

text \<open>A section without a word has cost nothing.\<close>

lemma wordless_charge:
  "\<forall>sec ctx'. processOperation n w op ctx = (Some (Inr sec), ctx') \<and>
       countWords (Content sec) = 0 \<longrightarrow> wordCount ctx' = wordCount ctx"
  "\<forall>sec ctx'. processPromptOperation n w p ctx = (Some (Inr sec), ctx') \<and>
       countWords (Content sec) = 0 \<longrightarrow> wordCount ctx' = wordCount ctx"
  "\<forall>secs ctx'. processOperations n w ops ctx = (Some (Inr secs), ctx') \<and>
       sectionWords secs = 0 \<longrightarrow> wordCount ctx' = wordCount ctx"
proof (induction n w op ctx and n w p ctx and n w ops ctx
       rule: processOperation_processPromptOperation_processOperations.induct)
  case (1 n w op ctx)
  show ?case
  proof (intro allI impI)
    fix sec ctx'
    assume a: "processOperation n w op ctx = (Some (Inr sec), ctx') \<and>
               countWords (Content sec) = 0"
    then have z: "countWords (Content sec) = 0" by simp
    from a have run: "processOperation n w op ctx = (Some (Inr sec), ctx')" by simp
    from run show "wordCount ctx' = wordCount ctx"
    proof (cases rule: processOperation_InrE)
      case File
      then show ?thesis using processFileOperation_charge z by fastforce
    next
      case Prompt
      then show ?thesis using "1.IH" [OF Prompt(1) [symmetric] refl refl] z by blast
    next
      case Command
      then show ?thesis using processCommandOperation_charge z by fastforce
    next
      case Text
      then show ?thesis using processTextOperation_charge z by fastforce
    qed
  qed
next
  case (2 w promptPath ctx)
  then show ?case by simp
next
  case (3 n w promptPath ctx)
  show ?case
  proof (intro allI impI)
    fix sec ctx'
    assume a: "processPromptOperation (Suc n) w promptPath ctx = (Some (Inr sec), ctx') \<and>
               countWords (Content sec) = 0"
    then have z: "countWords (Content sec) = 0" by simp
    from a have run: "processPromptOperation (Suc n) w promptPath ctx = (Some (Inr sec), ctx')"
      by simp
    from run obtain m pf ctx1 sections ctx4 where
      m: "Suc n = Suc m" and
      nv: "\<not> IsVisited w ctx (ResolvePath ctx promptPath)" and
      p: "parsePromptFile w (ResolvePath ctx promptPath) ctx = (Inr pf, ctx1)" and
      o: "processOperations m w (rangeOps pf)
            (MarkVisited w (ctx1\<lparr>basePath := Dir (ResolvePath ctx promptPath)\<rparr>)
               (ResolvePath ctx promptPath)) = (Some (Inr sections), ctx4)" and
      aw: "AddWords (ctx4\<lparr>visitedFiles := visitedFiles ctx4 - {ResolvePath ctx promptPath},
                          basePath := basePath ctx1\<rparr>)
             (countWords (combineSections 0 promptPath (delimiterStyle ctx4) sections)) =
           (None, ctx')" and
      s: "sec = \<lparr>Source = promptPath,
                 Content = combineSections 0 promptPath (delimiterStyle ctx4) sections,
                 Type = PromptOp\<rparr>"
      by (rule processPromptOperation_InrE)
    from m have mn: "m = n" by simp
    have "sectionWords sections \<le> countWords (Content sec)"
      using sectionWords_le_combined [of sections 0 promptPath "delimiterStyle ctx4"] s by simp
    then have sz: "sectionWords sections = 0"
      using z sectionWords_nonneg [of sections] by simp
    have "wordCount ctx4 =
          wordCount (MarkVisited w (ctx1\<lparr>basePath := Dir (ResolvePath ctx promptPath)\<rparr>)
                       (ResolvePath ctx promptPath))"
      using "3.IH" [OF refl nv p [symmetric] refl refl refl refl] o [unfolded mn] sz by blast
    then have "wordCount ctx4 = wordCount ctx"
      using parsePromptFile_wordCount [OF p] by (simp add: MarkVisited_def)
    moreover have "wordCount ctx' = wordCount ctx4 + countWords (Content sec)"
      using AddWords_NoneD [OF aw] s by simp
    ultimately show "wordCount ctx' = wordCount ctx"
      using z by simp
  qed
next
  case (4 n w ctx)
  then show ?case by simp
next
  case (5 n w op ops ctx)
  show ?case
  proof (intro allI impI)
    fix secs ctx'
    assume a: "processOperations n w (op # ops) ctx = (Some (Inr secs), ctx') \<and>
               sectionWords secs = 0"
    then have run: "processOperations n w (op # ops) ctx = (Some (Inr secs), ctx')" by simp
    from run obtain sec rest ctx1 where
      o: "processOperation n w op ctx = (Some (Inr sec), ctx1)" and
      r: "processOperations n w ops ctx1 = (Some (Inr rest), ctx')" and
      e: "secs = sec # rest"
      by (rule processOperations_InrE)
    have "countWords (Content sec) + sectionWords rest = 0"
      using a e by (simp add: sectionWords_Cons)
    then have z1: "countWords (Content sec) = 0" and z2: "sectionWords rest = 0"
      using countWords_nonneg [of "Content sec"] sectionWords_nonneg [of rest] by simp_all
    have "wordCount ctx1 = wordCount ctx"
      using "5.IH"(1) o z1 by blast
    moreover have "wordCount ctx' = wordCount ctx1"
      using "5.IH"(2) [OF o [symmetric] refl refl] r z2 by blast
    ultimately show "wordCount ctx' = wordCount ctx" by simp
  qed
qed

text \<open>
  C9, as the claim states it, fails: the nested document \<open>blank.yml\<close> holds one
  space. Under the style \<open>none\<close> its section has the content of two bytes, a newline
  and the space, which is not empty and has no word, and the running total after
  the operation is 0 as before: nothing exceeds the word count of the content.
\<close>

theorem blank_nested_document_charged_nothing:
  "processPromptOperation 1 workDir ''blank.yml''
       (NewProcessingContext ''/work/space.yml'' 100 ''none'' []) =
     (Some (Inr \<lparr>Source = ''blank.yml'', Content = ''\<newline> '', Type = PromptOp\<rparr>),
      \<lparr>basePath = ''/work'', visitedFiles = {}, maxWords = 100, wordCount = 0,
       delimiterStyle = ''none'', events = [EvReadFile ''/work/blank.yml'']\<rparr>) \<and>
   ''\<newline> '' \<noteq> [] \<and> countWords ''\<newline> '' = 0 \<and> countWords '' '' = 0 \<and>
   \<not> countWords ''\<newline> '' < 0 - wordCount (NewProcessingContext ''/work/space.yml'' 100 ''none'' [])"
  by code_simp

text \<open>
  C9, amended. A \<open>prompt\<close> operation charges the budget two times for the nested
  document: the operations of the nested document add to the running total as they
  are processed, each at least the words of its section (exactly these words when
  the nested document has no \<open>prompt\<close> operation of its own), and the parent then adds
  the words of the concatenation, headers included. So the total charged for the
  nested document is greater than the word count of its section content when the
  sections of the nested document hold at least one word; a nested document with
  no word in its sections is charged the word count of its content and no more,
  whatever its operations are. The content has at least the words of the sections,
  so a nested document whose content has no word is among the latter: it is charged
  the word count of its content, which is nothing.
\<close>

theorem nested_document_charged_twice:
  assumes "processPromptOperation n w promptPath ctx = (Some (Inr sec), ctx')"
  shows "\<exists>m pf ctx1 sections ctx4.
     n = Suc m \<and>
     parsePromptFile w (ResolvePath ctx promptPath) ctx = (Inr pf, ctx1) \<and>
     processOperations m w (rangeOps pf)
       (MarkVisited w (ctx1\<lparr>basePath := Dir (ResolvePath ctx promptPath)\<rparr>)
          (ResolvePath ctx promptPath)) = (Some (Inr sections), ctx4) \<and>
     Content sec = combineSections 0 promptPath (delimiterStyle ctx4) sections \<and>
     wordCount ctx + sectionWords sections \<le> wordCount ctx4 \<and>
     ((\<forall>op \<in> set (rangeOps pf). fst (GetType op) \<noteq> PromptOp) \<longrightarrow>
        wordCount ctx4 = wordCount ctx + sectionWords sections) \<and>
     wordCount ctx' = wordCount ctx4 + countWords (Content sec) \<and>
     (0 < sectionWords sections \<longrightarrow> countWords (Content sec) < wordCount ctx' - wordCount ctx) \<and>
     (sectionWords sections = 0 \<longrightarrow> wordCount ctx' - wordCount ctx = countWords (Content sec)) \<and>
     sectionWords sections \<le> countWords (Content sec) \<and>
     (countWords (Content sec) = 0 \<longrightarrow> wordCount ctx' - wordCount ctx = countWords (Content sec))"
proof -
  let ?rp = "ResolvePath ctx promptPath"
  let ?ctx3 = "\<lambda>ctx1. MarkVisited w (ctx1\<lparr>basePath := Dir ?rp\<rparr>) ?rp"
  from assms obtain m pf ctx1 sections ctx4 where
    m: "n = Suc m" and
    p: "parsePromptFile w ?rp ctx = (Inr pf, ctx1)" and
    o: "processOperations m w (rangeOps pf) (?ctx3 ctx1) = (Some (Inr sections), ctx4)" and
    aw: "AddWords (ctx4\<lparr>visitedFiles := visitedFiles ctx4 - {?rp}, basePath := basePath ctx1\<rparr>)
           (countWords (combineSections 0 promptPath (delimiterStyle ctx4) sections)) =
         (None, ctx')" and
    s: "sec = \<lparr>Source = promptPath,
               Content = combineSections 0 promptPath (delimiterStyle ctx4) sections,
               Type = PromptOp\<rparr>"
    by (rule processPromptOperation_InrE)
  have w3: "wordCount (?ctx3 ctx1) = wordCount ctx"
    using parsePromptFile_wordCount [OF p] by (simp add: MarkVisited_def)
  have lower: "wordCount ctx + sectionWords sections \<le> wordCount ctx4"
    using charge_lower_bound(3) [of m w "rangeOps pf" "?ctx3 ctx1"] o w3 by auto
  have flat: "wordCount ctx4 = wordCount ctx + sectionWords sections"
    if "\<forall>op \<in> set (rangeOps pf). fst (GetType op) \<noteq> PromptOp"
    using flat_charge [OF o that] w3 by simp
  have total: "wordCount ctx' = wordCount ctx4 + countWords (Content sec)"
    using AddWords_NoneD [OF aw] s by simp
  have c: "Content sec = combineSections 0 promptPath (delimiterStyle ctx4) sections"
    using s by simp
  have strict: "countWords (Content sec) < wordCount ctx' - wordCount ctx"
    if "0 < sectionWords sections"
    using that lower total by simp
  have exact: "wordCount ctx' - wordCount ctx = countWords (Content sec)"
    if "sectionWords sections = 0"
  proof -
    have "wordCount ctx4 = wordCount (?ctx3 ctx1)"
      using wordless_charge(3) [of m w "rangeOps pf" "?ctx3 ctx1"] o that by blast
    then show ?thesis
      using w3 total by simp
  qed
  have inside: "sectionWords sections \<le> countWords (Content sec)"
    using sectionWords_le_combined [of sections 0 promptPath "delimiterStyle ctx4"] c by simp
  have wordless: "wordCount ctx' - wordCount ctx = countWords (Content sec)"
    if "countWords (Content sec) = 0"
    using that inside sectionWords_nonneg [of sections] exact by simp
  show ?thesis
    using m p o c lower flat total strict exact inside wordless by blast
qed

theorem nested_document_charged_twice_witness:
  "processPromptOperation 1 workDir ''leaf.yml''
       (NewProcessingContext ''/work/once.yml'' 100 ''xml'' []) =
     (Some (Inr \<lparr>Source = ''leaf.yml'',
                 Content = ''\<newline><!-- pcp-source: leaf.yml->text -->\<newline>a b'',
                 Type = PromptOp\<rparr>),
      \<lparr>basePath = ''/work'', visitedFiles = {}, maxWords = 100, wordCount = 8,
       delimiterStyle = ''xml'', events = [EvReadFile ''/work/leaf.yml'']\<rparr>) \<and>
   countWords ''a b'' = 2 \<and>
   countWords ''\<newline><!-- pcp-source: leaf.yml->text -->\<newline>a b'' = 6 \<and>
   countWords ''\<newline><!-- pcp-source: leaf.yml->text -->\<newline>a b'' <
     8 - wordCount (NewProcessingContext ''/work/once.yml'' 100 ''xml'' []) \<and>
   processPromptOperation 2 workDir ''space.yml''
       (NewProcessingContext ''/work/outer.yml'' 100 ''none'' []) =
     (Some (Inr \<lparr>Source = ''space.yml'', Content = ''\<newline>\<newline> '', Type = PromptOp\<rparr>),
      \<lparr>basePath = ''/work'', visitedFiles = {}, maxWords = 100, wordCount = 0,
       delimiterStyle = ''none'',
       events = [EvReadFile ''/work/space.yml'', EvReadFile ''/work/blank.yml'']\<rparr>) \<and>
   ''\<newline>\<newline> '' \<noteq> [] \<and>
   0 - wordCount (NewProcessingContext ''/work/outer.yml'' 100 ''none'' []) =
     countWords ''\<newline>\<newline> ''"
proof -
  have run: "processPromptOperation 1 workDir ''leaf.yml''
       (NewProcessingContext ''/work/once.yml'' 100 ''xml'' []) =
     (Some (Inr \<lparr>Source = ''leaf.yml'',
                 Content = ''\<newline><!-- pcp-source: leaf.yml->text -->\<newline>a b'',
                 Type = PromptOp\<rparr>),
      \<lparr>basePath = ''/work'', visitedFiles = {}, maxWords = 100, wordCount = 8,
       delimiterStyle = ''xml'', events = [EvReadFile ''/work/leaf.yml'']\<rparr>)"
    by code_simp
  have nested: "processPromptOperation 2 workDir ''space.yml''
       (NewProcessingContext ''/work/outer.yml'' 100 ''none'' []) =
     (Some (Inr \<lparr>Source = ''space.yml'', Content = ''\<newline>\<newline> '', Type = PromptOp\<rparr>),
      \<lparr>basePath = ''/work'', visitedFiles = {}, maxWords = 100, wordCount = 0,
       delimiterStyle = ''none'',
       events = [EvReadFile ''/work/space.yml'', EvReadFile ''/work/blank.yml'']\<rparr>)"
    by code_simp
  have c1: "countWords ''a b'' = 2" by code_simp
  have c2: "countWords ''\<newline><!-- pcp-source: leaf.yml->text -->\<newline>a b'' = 6" by code_simp
  have c3: "countWords ''\<newline>\<newline> '' = 0" by code_simp
  have c0: "wordCount (NewProcessingContext ''/work/once.yml'' 100 ''xml'' []) = 0"
    "wordCount (NewProcessingContext ''/work/outer.yml'' 100 ''none'' []) = 0"
    by (simp_all add: NewProcessingContext_def)
  show ?thesis
    using nested_document_charged_twice [OF run] nested_document_charged_twice [OF nested]
      run nested c0 c1 c2 c3 by simp
qed

text \<open>Changing the budget of the context changes nothing else in parsing and validation.\<close>

lemma parsePromptFile_budget:
  "parsePromptFile w p (ctx\<lparr>maxWords := m\<rparr>) =
     (case parsePromptFile w p ctx of (r, c) \<Rightarrow> (r, c\<lparr>maxWords := m\<rparr>))"
  by (simp add: parsePromptFile_def emit_def Let_def split: option.splits sum.splits)

lemma validate_budget:
  "validatePromptFileStructure n w p (ctx\<lparr>maxWords := m\<rparr>) =
     (case validatePromptFileStructure n w p ctx of (r, c) \<Rightarrow> (r, c\<lparr>maxWords := m\<rparr>))"
  "validateNested n w ops (ctx\<lparr>maxWords := m\<rparr>) =
     (case validateNested n w ops ctx of (r, c) \<Rightarrow> (r, c\<lparr>maxWords := m\<rparr>))"
proof (induction n w p ctx and n w ops ctx rule: validatePromptFileStructure_validateNested.induct)
  case (1 w filePath ctx)
  then show ?case by simp
next
  case (2 n w filePath ctx)
  show ?case
  proof (cases "IsVisited w ctx (Abs w filePath)")
    case True
    then show ?thesis by (simp add: IsVisited_def getVisitedPaths_def Let_def)
  next
    case False
    let ?ctx1 = "MarkVisited w ctx (Abs w filePath)"
    have mv: "MarkVisited w (ctx\<lparr>maxWords := m\<rparr>) (Abs w filePath) = ?ctx1\<lparr>maxWords := m\<rparr>"
      by (simp add: MarkVisited_def)
    have nv: "\<not> IsVisited w (ctx\<lparr>maxWords := m\<rparr>) (Abs w filePath)"
      using False by (simp add: IsVisited_def)
    obtain r ctx2 where p: "parsePromptFile w filePath ?ctx1 = (r, ctx2)"
      by (cases "parsePromptFile w filePath ?ctx1")
    have pm: "parsePromptFile w filePath (?ctx1\<lparr>maxWords := m\<rparr>) = (r, ctx2\<lparr>maxWords := m\<rparr>)"
      using p by (simp add: parsePromptFile_budget)
    show ?thesis
    proof (cases r)
      case (Inl e)
      then show ?thesis using False nv mv p pm by (simp add: Let_def)
    next
      case (Inr pf)
      have ih: "validateNested n w (rangeOps pf) (ctx2\<lparr>maxWords := m\<rparr>) =
          (case validateNested n w (rangeOps pf) ctx2 of (r, c) \<Rightarrow> (r, c\<lparr>maxWords := m\<rparr>))"
        using "2.IH" [OF refl False refl p [unfolded Inr, symmetric] refl] .
      show ?thesis using False nv mv p pm Inr ih
        by (simp add: Let_def split: prod.splits)
    qed
  qed
next
  case (3 n w ctx)
  then show ?case by simp
next
  case (4 n w op ops ctx)
  show ?case
  proof (cases "fst (GetType op) = PromptOp")
    case False
    then show ?thesis using "4.IH"(3) by simp
  next
    case True
    let ?np = "ResolvePath ctx (GetValue op)"
    have rp: "ResolvePath (ctx\<lparr>maxWords := m\<rparr>) (GetValue op) = ?np"
      by (simp add: ResolvePath_def)
    obtain r ctx1 where v: "validatePromptFileStructure n w ?np ctx = (r, ctx1)"
      by (cases "validatePromptFileStructure n w ?np ctx")
    have vm: "validatePromptFileStructure n w ?np (ctx\<lparr>maxWords := m\<rparr>) = (r, ctx1\<lparr>maxWords := m\<rparr>)"
      using "4.IH"(1) [OF True refl] v by simp
    show ?thesis
    proof (cases "r = Some (Inr ())")
      case ok: True
      have "validateNested n w ops (ctx1\<lparr>maxWords := m\<rparr>) =
          (case validateNested n w ops ctx1 of (r, c) \<Rightarrow> (r, c\<lparr>maxWords := m\<rparr>))"
        using "4.IH"(2) [OF True refl v [unfolded ok, symmetric] refl refl] .
      then show ?thesis using True rp v vm ok by (simp add: Let_def)
    next
      case False
      then show ?thesis using True rp v vm
        by (auto simp: Let_def split: option.splits sum.splits)
    qed
  qed
qed

text \<open>
  A file, a command and a text under another budget \<open>m\<close>: the same section when the
  running total after the operation fits in \<open>m\<close>, and the error that reports this
  total otherwise.
\<close>

lemma processFileOperation_readable:
  assumes "lookupFile w (ResolvePath ctx p) \<noteq> None"
      and "\<not> isBinaryFile w (ResolvePath ctx p)"
      and "ReadFile w (ResolvePath ctx p) = Some d"
  shows "processFileOperation w p ctx =
     (case AddWords (emit (EvReadFile (Abs w (ResolvePath ctx p)))
                      (emit (EvOpen (Abs w (ResolvePath ctx p)))
                        (emit (EvStat (Abs w (ResolvePath ctx p))) ctx)))
             (countWords d) of
        (Some e, c) \<Rightarrow> (Inl e, c)
      | (None, c) \<Rightarrow> (Inr \<lparr>Source = p, Content = d, Type = FileOp\<rparr>, c))"
  using assms
  by (cases "lookupFile w (ResolvePath ctx p)") (simp_all add: processFileOperation_def Let_def)

lemma processFileOperation_InrD:
  assumes "processFileOperation w p ctx = (Inr sec, ctx')"
  shows "lookupFile w (ResolvePath ctx p) \<noteq> None \<and> \<not> isBinaryFile w (ResolvePath ctx p) \<and>
         (\<exists>d. ReadFile w (ResolvePath ctx p) = Some d)"
proof -
  have 1: "lookupFile w (ResolvePath ctx p) \<noteq> None"
    using assms
    by (cases "lookupFile w (ResolvePath ctx p)") (simp_all add: processFileOperation_def Let_def)
  have 2: "\<not> isBinaryFile w (ResolvePath ctx p)"
    using assms 1
    by (cases "lookupFile w (ResolvePath ctx p)")
       (simp_all add: processFileOperation_def Let_def split: if_splits)
  have 3: "ReadFile w (ResolvePath ctx p) \<noteq> None"
    using assms 1 2
    by (cases "lookupFile w (ResolvePath ctx p)"; cases "ReadFile w (ResolvePath ctx p)")
       (simp_all add: processFileOperation_def Let_def)
  show ?thesis using 1 2 3 by auto
qed

lemma processFileOperation_budget:
  assumes "processFileOperation w p ctx = (Inr sec, ctx')"
  shows "(wordCount ctx' \<le> m \<longrightarrow>
            processFileOperation w p (ctx\<lparr>maxWords := m\<rparr>) = (Inr sec, ctx'\<lparr>maxWords := m\<rparr>)) \<and>
         (m < wordCount ctx' \<longrightarrow>
            fst (processFileOperation w p (ctx\<lparr>maxWords := m\<rparr>)) =
              Inl (ErrWordLimitExceeded (wordCount ctx') m))"
proof -
  have rp: "ResolvePath (ctx\<lparr>maxWords := m\<rparr>) p = ResolvePath ctx p"
    by (simp add: ResolvePath_def)
  from processFileOperation_InrD [OF assms] obtain d where
    c: "lookupFile w (ResolvePath ctx p) \<noteq> None" "\<not> isBinaryFile w (ResolvePath ctx p)"
       "ReadFile w (ResolvePath ctx p) = Some d"
    by blast
  note a = processFileOperation_readable [OF c]
  note b = processFileOperation_readable [of w "ctx\<lparr>maxWords := m\<rparr>" p d, unfolded rp, OF c]
  show ?thesis
    using assms unfolding a b
    by (auto simp: AddWords_def emit_def Let_def split: if_splits)
qed

lemma processCommandOperation_budget:
  assumes "processCommandOperation w c ctx = (Inr sec, ctx')"
  shows "(wordCount ctx' \<le> m \<longrightarrow>
            processCommandOperation w c (ctx\<lparr>maxWords := m\<rparr>) = (Inr sec, ctx'\<lparr>maxWords := m\<rparr>)) \<and>
         (m < wordCount ctx' \<longrightarrow>
            fst (processCommandOperation w c (ctx\<lparr>maxWords := m\<rparr>)) =
              Inl (ErrWordLimitExceeded (wordCount ctx') m))"
  using assms
  by (auto simp: processCommandOperation_def Let_def emit_def AddWords_def
           split: if_splits option.splits prod.splits)

lemma processTextOperation_budget:
  assumes "processTextOperation t ctx = (Inr sec, ctx')"
  shows "(wordCount ctx' \<le> m \<longrightarrow>
            processTextOperation t (ctx\<lparr>maxWords := m\<rparr>) = (Inr sec, ctx'\<lparr>maxWords := m\<rparr>)) \<and>
         (m < wordCount ctx' \<longrightarrow>
            fst (processTextOperation t (ctx\<lparr>maxWords := m\<rparr>)) =
              Inl (ErrWordLimitExceeded (wordCount ctx') m))"
  using assms
  by (auto simp: processTextOperation_def Let_def AddWords_def
           split: if_splits option.splits prod.splits)

lemma processPromptOperation_parsed:
  assumes "\<not> IsVisited w ctx (ResolvePath ctx p)"
      and "parsePromptFile w (ResolvePath ctx p) ctx = (Inr pf, ctx1)"
  shows "processPromptOperation (Suc n) w p ctx =
     (case processOperations n w (rangeOps pf)
             (MarkVisited w (ctx1\<lparr>basePath := Dir (ResolvePath ctx p)\<rparr>) (ResolvePath ctx p)) of
        (None, c) \<Rightarrow> (None, c)
      | (Some (Inl e), c) \<Rightarrow> (Some (Inl e), c)
      | (Some (Inr secs), ctx4) \<Rightarrow>
          (case AddWords (ctx4\<lparr>visitedFiles := visitedFiles ctx4 - {ResolvePath ctx p},
                               basePath := basePath ctx1\<rparr>)
                  (countWords (combineSections 0 p (delimiterStyle ctx4) secs)) of
             (Some e, c) \<Rightarrow> (Some (Inl e), c)
           | (None, c) \<Rightarrow>
               (Some (Inr \<lparr>Source = p,
                           Content = combineSections 0 p (delimiterStyle ctx4) secs,
                           Type = PromptOp\<rparr>), c)))"
  using assms
  by (simp add: Let_def del: processOperation.simps split: prod.splits option.splits sum.splits)

text \<open>
  The execution walk under another budget \<open>m\<close>. A call that succeeded gives the same
  sections when the running total it ended with fits in \<open>m\<close>; when that total is
  greater than \<open>m\<close>, the call fails with \<open>WordLimitExceeded\<close>, and the total it
  reports is greater than \<open>m\<close> and at most the total of the successful call.
\<close>

lemma budget_change:
  "\<forall>sec ctx' m. processOperation n w op ctx = (Some (Inr sec), ctx') \<longrightarrow>
     (wordCount ctx' \<le> m \<longrightarrow>
        processOperation n w op (ctx\<lparr>maxWords := m\<rparr>) = (Some (Inr sec), ctx'\<lparr>maxWords := m\<rparr>)) \<and>
     (m < wordCount ctx' \<longrightarrow>
        (\<exists>cur. fst (processOperation n w op (ctx\<lparr>maxWords := m\<rparr>)) =
                 Some (Inl (ErrWordLimitExceeded cur m)) \<and> m < cur \<and> cur \<le> wordCount ctx'))"
  "\<forall>sec ctx' m. processPromptOperation n w p ctx = (Some (Inr sec), ctx') \<longrightarrow>
     (wordCount ctx' \<le> m \<longrightarrow>
        processPromptOperation n w p (ctx\<lparr>maxWords := m\<rparr>) = (Some (Inr sec), ctx'\<lparr>maxWords := m\<rparr>)) \<and>
     (m < wordCount ctx' \<longrightarrow>
        (\<exists>cur. fst (processPromptOperation n w p (ctx\<lparr>maxWords := m\<rparr>)) =
                 Some (Inl (ErrWordLimitExceeded cur m)) \<and> m < cur \<and> cur \<le> wordCount ctx'))"
  "\<forall>secs ctx' m. processOperations n w ops ctx = (Some (Inr secs), ctx') \<longrightarrow>
     (wordCount ctx' \<le> m \<or> ops = [] \<longrightarrow>
        processOperations n w ops (ctx\<lparr>maxWords := m\<rparr>) = (Some (Inr secs), ctx'\<lparr>maxWords := m\<rparr>)) \<and>
     (m < wordCount ctx' \<and> ops \<noteq> [] \<longrightarrow>
        (\<exists>cur. fst (processOperations n w ops (ctx\<lparr>maxWords := m\<rparr>)) =
                 Some (Inl (ErrWordLimitExceeded cur m)) \<and> m < cur \<and> cur \<le> wordCount ctx'))"
proof (induction n w op ctx and n w p ctx and n w ops ctx
       rule: processOperation_processPromptOperation_processOperations.induct)
  case (1 n w op ctx)
  show ?case
  proof (intro allI impI)
    fix sec ctx' m
    assume a: "processOperation n w op ctx = (Some (Inr sec), ctx')"
    from a show "(wordCount ctx' \<le> m \<longrightarrow>
        processOperation n w op (ctx\<lparr>maxWords := m\<rparr>) = (Some (Inr sec), ctx'\<lparr>maxWords := m\<rparr>)) \<and>
      (m < wordCount ctx' \<longrightarrow>
        (\<exists>cur. fst (processOperation n w op (ctx\<lparr>maxWords := m\<rparr>)) =
                 Some (Inl (ErrWordLimitExceeded cur m)) \<and> m < cur \<and> cur \<le> wordCount ctx'))"
    proof (cases rule: processOperation_InrE)
      case File
      show ?thesis
        using File(1) processFileOperation_budget [OF File(2), of m]
        by (auto split: prod.splits)
    next
      case Prompt
      show ?thesis
        using Prompt(1) "1.IH" [OF Prompt(1) [symmetric] refl refl] Prompt(2)
        by simp
    next
      case Command
      show ?thesis
        using Command(1) processCommandOperation_budget [OF Command(2), of m]
        by (auto split: prod.splits)
    next
      case Text
      show ?thesis
        using Text(1) processTextOperation_budget [OF Text(2), of m]
        by (auto split: prod.splits)
    qed
  qed
next
  case (2 w promptPath ctx)
  then show ?case by simp
next
  case (3 n w promptPath ctx)
  show ?case
  proof (intro allI impI)
    fix sec ctx' m
    let ?rp = "ResolvePath ctx promptPath"
    let ?cm = "ctx\<lparr>maxWords := m\<rparr>"
    assume a: "processPromptOperation (Suc n) w promptPath ctx = (Some (Inr sec), ctx')"
    from a obtain k pf ctx1 sections ctx4 where
      k: "Suc n = Suc k" and
      nv: "\<not> IsVisited w ctx ?rp" and
      p: "parsePromptFile w ?rp ctx = (Inr pf, ctx1)" and
      o: "processOperations k w (rangeOps pf)
            (MarkVisited w (ctx1\<lparr>basePath := Dir ?rp\<rparr>) ?rp) = (Some (Inr sections), ctx4)" and
      aw: "AddWords (ctx4\<lparr>visitedFiles := visitedFiles ctx4 - {?rp}, basePath := basePath ctx1\<rparr>)
             (countWords (combineSections 0 promptPath (delimiterStyle ctx4) sections)) =
           (None, ctx')" and
      s: "sec = \<lparr>Source = promptPath,
                 Content = combineSections 0 promptPath (delimiterStyle ctx4) sections,
                 Type = PromptOp\<rparr>"
      by (rule processPromptOperation_InrE)
    let ?ctx3 = "MarkVisited w (ctx1\<lparr>basePath := Dir ?rp\<rparr>) ?rp"
    let ?cw = "countWords (combineSections 0 promptPath (delimiterStyle ctx4) sections)"
    from k o have o': "processOperations n w (rangeOps pf) ?ctx3 = (Some (Inr sections), ctx4)"
      by simp
    have rp: "ResolvePath ?cm promptPath = ?rp"
      by (simp add: ResolvePath_def)
    have nvm: "\<not> IsVisited w ?cm ?rp"
      using nv by (simp add: IsVisited_def)
    have pm: "parsePromptFile w ?rp ?cm = (Inr pf, ctx1\<lparr>maxWords := m\<rparr>)"
      using p by (simp add: parsePromptFile_budget)
    have c3m: "MarkVisited w (ctx1\<lparr>maxWords := m, basePath := Dir ?rp\<rparr>) ?rp = ?ctx3\<lparr>maxWords := m\<rparr>"
      by (simp add: MarkVisited_def)
    note runm = processPromptOperation_parsed [of w ?cm promptPath pf "ctx1\<lparr>maxWords := m\<rparr>" n,
                  unfolded rp, OF nvm pm, unfolded c3m]
    have total: "ctx' = ctx4\<lparr>visitedFiles := visitedFiles ctx4 - {?rp}, basePath := basePath ctx1,
                             wordCount := wordCount ctx4 + ?cw\<rparr>"
      using AddWords_NoneD [OF aw] by simp
    have wc: "wordCount ctx' = wordCount ctx4 + ?cw"
      using total by simp
    have mono: "wordCount ctx4 \<le> wordCount ctx'"
      using wc countWords_nonneg [of "combineSections 0 promptPath (delimiterStyle ctx4) sections"]
      by simp
    note ih = "3.IH" [OF refl nv p [symmetric] refl refl refl refl, rule_format, OF o', of m]
    have same: "processOperations n w (rangeOps pf) (?ctx3\<lparr>maxWords := m\<rparr>) =
                  (Some (Inr sections), ctx4\<lparr>maxWords := m\<rparr>)"
      if "wordCount ctx4 \<le> m \<or> rangeOps pf = []"
      using ih that by blast
    show "(wordCount ctx' \<le> m \<longrightarrow>
        processPromptOperation (Suc n) w promptPath ?cm = (Some (Inr sec), ctx'\<lparr>maxWords := m\<rparr>)) \<and>
      (m < wordCount ctx' \<longrightarrow>
        (\<exists>cur. fst (processPromptOperation (Suc n) w promptPath ?cm) =
                 Some (Inl (ErrWordLimitExceeded cur m)) \<and> m < cur \<and> cur \<le> wordCount ctx'))"
    proof (intro conjI impI)
      assume le: "wordCount ctx' \<le> m"
      then have "wordCount ctx4 \<le> m" using mono by simp
      then show "processPromptOperation (Suc n) w promptPath ?cm =
                   (Some (Inr sec), ctx'\<lparr>maxWords := m\<rparr>)"
        using same le wc s total unfolding runm
        by (simp add: AddWords_def Let_def)
    next
      assume gt: "m < wordCount ctx'"
      show "\<exists>cur. fst (processPromptOperation (Suc n) w promptPath ?cm) =
                 Some (Inl (ErrWordLimitExceeded cur m)) \<and> m < cur \<and> cur \<le> wordCount ctx'"
      proof (cases "wordCount ctx4 \<le> m \<or> rangeOps pf = []")
        case True
        have "fst (processPromptOperation (Suc n) w promptPath ?cm) =
                Some (Inl (ErrWordLimitExceeded (wordCount ctx') m))"
          using same [OF True] gt wc unfolding runm
          by (simp add: AddWords_def Let_def)
        then show ?thesis using gt by blast
      next
        case False
        then have "m < wordCount ctx4 \<and> rangeOps pf \<noteq> []" by simp
        then obtain cur where
          f: "fst (processOperations n w (rangeOps pf) (?ctx3\<lparr>maxWords := m\<rparr>)) =
                Some (Inl (ErrWordLimitExceeded cur m))" and
          b: "m < cur" "cur \<le> wordCount ctx4"
          using ih by blast
        have "fst (processPromptOperation (Suc n) w promptPath ?cm) =
                Some (Inl (ErrWordLimitExceeded cur m))"
          using f unfolding runm
          by (cases "processOperations n w (rangeOps pf) (?ctx3\<lparr>maxWords := m\<rparr>)") simp
        then show ?thesis using b mono by force
      qed
    qed
  qed
next
  case (4 n w ctx)
  then show ?case by simp
next
  case (5 n w op ops ctx)
  show ?case
  proof (intro allI impI)
    fix secs ctx' m
    let ?cm = "ctx\<lparr>maxWords := m\<rparr>"
    assume a: "processOperations n w (op # ops) ctx = (Some (Inr secs), ctx')"
    from a obtain sec rest ctx1 where
      o: "processOperation n w op ctx = (Some (Inr sec), ctx1)" and
      r: "processOperations n w ops ctx1 = (Some (Inr rest), ctx')" and
      e: "secs = sec # rest"
      by (rule processOperations_InrE)
    have mono: "wordCount ctx1 \<le> wordCount ctx'"
      using charge_lower_bound(3) [of n w ops ctx1] r sectionWords_nonneg [of rest] by force
    note ih1 = "5.IH"(1) [rule_format, OF o, of m]
    note ih2 = "5.IH"(2) [OF o [symmetric] refl refl, rule_format, OF r, of m]
    have nil: "wordCount ctx' = wordCount ctx1" if "ops = []"
      using r that by simp
    show "(wordCount ctx' \<le> m \<or> op # ops = [] \<longrightarrow>
        processOperations n w (op # ops) ?cm = (Some (Inr secs), ctx'\<lparr>maxWords := m\<rparr>)) \<and>
      (m < wordCount ctx' \<and> op # ops \<noteq> [] \<longrightarrow>
        (\<exists>cur. fst (processOperations n w (op # ops) ?cm) =
                 Some (Inl (ErrWordLimitExceeded cur m)) \<and> m < cur \<and> cur \<le> wordCount ctx'))"
    proof (intro conjI impI)
      assume "wordCount ctx' \<le> m \<or> op # ops = []"
      then have le: "wordCount ctx' \<le> m" by simp
      then have "processOperation n w op ?cm = (Some (Inr sec), ctx1\<lparr>maxWords := m\<rparr>)"
        using ih1 mono by simp
      moreover have "processOperations n w ops (ctx1\<lparr>maxWords := m\<rparr>) =
                       (Some (Inr rest), ctx'\<lparr>maxWords := m\<rparr>)"
        using ih2 le by simp
      ultimately show "processOperations n w (op # ops) ?cm =
                         (Some (Inr secs), ctx'\<lparr>maxWords := m\<rparr>)"
        using e by (simp del: processOperation.simps)
    next
      assume "m < wordCount ctx' \<and> op # ops \<noteq> []"
      then have gt: "m < wordCount ctx'" by simp
      show "\<exists>cur. fst (processOperations n w (op # ops) ?cm) =
                 Some (Inl (ErrWordLimitExceeded cur m)) \<and> m < cur \<and> cur \<le> wordCount ctx'"
      proof (cases "wordCount ctx1 \<le> m")
        case True
        then have first: "processOperation n w op ?cm = (Some (Inr sec), ctx1\<lparr>maxWords := m\<rparr>)"
          using ih1 by simp
        have "ops \<noteq> []" using True gt nil by force
        then obtain cur where
          f: "fst (processOperations n w ops (ctx1\<lparr>maxWords := m\<rparr>)) =
                Some (Inl (ErrWordLimitExceeded cur m))" and
          b: "m < cur" "cur \<le> wordCount ctx'"
          using ih2 gt by blast
        have "fst (processOperations n w (op # ops) ?cm) = Some (Inl (ErrWordLimitExceeded cur m))"
          using first f
          by (cases "processOperations n w ops (ctx1\<lparr>maxWords := m\<rparr>)")
             (simp del: processOperation.simps)
        then show ?thesis using b by blast
      next
        case False
        then obtain cur where
          f: "fst (processOperation n w op ?cm) = Some (Inl (ErrWordLimitExceeded cur m))" and
          b: "m < cur" "cur \<le> wordCount ctx1"
          using ih1 by force
        have "fst (processOperations n w (op # ops) ?cm) = Some (Inl (ErrWordLimitExceeded cur m))"
          using f
          by (cases "processOperation n w op ?cm") (simp del: processOperation.simps)
        then show ?thesis using b mono by force
      qed
    qed
  qed
qed

text \<open>
  C3, as the claim states it, fails in two ways. The document \<open>once.yml\<close> includes
  \<open>leaf.yml\<close>, whose text has two words: its one section and its compiled output
  have two words, and the run under a budget of 2 fails, reporting a total of 4.
  The document \<open>empty.yml\<close> has no operation and no word, and the run under a budget
  of -1 succeeds.
\<close>

theorem nested_and_empty_documents_miss_the_boundary:
  "processOperations 1 workDir [promptOp ''leaf.yml'']
       (NewProcessingContext ''/work/once.yml'' 100 ''none'' []) =
     (Some (Inr [\<lparr>Source = ''leaf.yml'', Content = ''\<newline>a b'', Type = PromptOp\<rparr>]),
      \<lparr>basePath = ''/work'', visitedFiles = {}, maxWords = 100, wordCount = 4,
       delimiterStyle = ''none'', events = [EvReadFile ''/work/leaf.yml'']\<rparr>) \<and>
   sectionWords [\<lparr>Source = ''leaf.yml'', Content = ''\<newline>a b'', Type = PromptOp\<rparr>] = 2 \<and>
   compileOutput [\<lparr>Source = ''leaf.yml'', Content = ''\<newline>a b'', Type = PromptOp\<rparr>] ''none'' =
     ''\<newline>a b\<newline>'' \<and>
   countWords ''\<newline>a b\<newline>'' = 2 \<and>
   fst (processPromptFile 2 workDir ''/work/once.yml'' [] 100 ''none'') = Some (Inr ()) \<and>
   fst (processPromptFile 2 workDir ''/work/once.yml'' [] 2 ''none'') =
     Some (Inl (ErrWordLimitExceeded 4 2)) \<and>
   processPromptFile 1 workDir ''/work/empty.yml'' [] (- 1) ''xml'' =
     (Some (Inr ()),
      [EvReadFile ''/work/empty.yml'', EvReadFile ''/work/empty.yml'', EvStdout ''\<newline>''])"
  by code_simp

text \<open>
  C3, amended. Take a document with at least one operation that the engine
  compiles under some budget, and let \<open>N\<close> be the running word total at the end of
  the execution walk; for a document with no \<open>prompt\<close> operation \<open>N\<close> is the sum of
  the word counts of its sections. Then the run under the budget \<open>N\<close> succeeds, and
  the run under \<open>N - 1\<close> fails with \<open>WordLimitExceeded\<close>, current \<open>N\<close> and limit
  \<open>N - 1\<close>.
\<close>

theorem word_budget_boundary:
  assumes v: "validatePromptFileStructure n w promptFile
                (NewProcessingContext promptFile M style []) = (Some (Inr ()), ctxv)"
      and p: "parsePromptFile w promptFile
                (NewProcessingContext promptFile M style (events ctxv)) = (Inr pf, ctx1)"
      and o: "processOperations n w (rangeOps pf) ctx1 = (Some (Inr sections), ctx2)"
      and ne: "rangeOps pf \<noteq> []"
      and out: "outputFile = [] \<or> writable w outputFile"
  shows "fst (processPromptFile n w promptFile outputFile (wordCount ctx2) style) = Some (Inr ()) \<and>
         fst (processPromptFile n w promptFile outputFile (wordCount ctx2 - 1) style) =
           Some (Inl (ErrWordLimitExceeded (wordCount ctx2) (wordCount ctx2 - 1))) \<and>
         ((\<forall>op \<in> set (rangeOps pf). fst (GetType op) \<noteq> PromptOp) \<longrightarrow>
            wordCount ctx2 = sectionWords sections)"
proof -
  let ?N = "wordCount ctx2"
  have new: "NewProcessingContext promptFile m style evs =
             (NewProcessingContext promptFile M style evs)\<lparr>maxWords := m\<rparr>" for m evs
    by (simp add: NewProcessingContext_def)
  have vm: "validatePromptFileStructure n w promptFile (NewProcessingContext promptFile m style []) =
            (Some (Inr ()), ctxv\<lparr>maxWords := m\<rparr>)" for m
    using v by (simp add: new [of m] validate_budget(1))
  have pm: "parsePromptFile w promptFile
              (NewProcessingContext promptFile m style (events ctxv)) =
            (Inr pf, ctx1\<lparr>maxWords := m\<rparr>)" for m
    using p by (simp add: new [of m] parsePromptFile_budget)
  note bc = budget_change(3) [of n w "rangeOps pf" ctx1, rule_format, OF o]
  have ok: "processOperations n w (rangeOps pf) (ctx1\<lparr>maxWords := ?N\<rparr>) =
            (Some (Inr sections), ctx2\<lparr>maxWords := ?N\<rparr>)"
    using bc [of ?N] by simp
  obtain cur where
    f: "fst (processOperations n w (rangeOps pf) (ctx1\<lparr>maxWords := ?N - 1\<rparr>)) =
          Some (Inl (ErrWordLimitExceeded cur (?N - 1)))" and
    b: "?N - 1 < cur" "cur \<le> ?N"
    using bc [of "?N - 1"] ne by auto
  from b have cur: "cur = ?N" by simp
  have first: "fst (processPromptFile n w promptFile outputFile ?N style) = Some (Inr ())"
    using out
    by (auto simp: processPromptFile_def Let_def vm [of ?N] pm [of ?N] ok
             simp del: processOperation.simps)
  have second: "fst (processPromptFile n w promptFile outputFile (?N - 1) style) =
                  Some (Inl (ErrWordLimitExceeded ?N (?N - 1)))"
    using f [unfolded cur]
    by (cases "processOperations n w (rangeOps pf) (ctx1\<lparr>maxWords := ?N - 1\<rparr>)")
       (simp add: processPromptFile_def Let_def vm [of "?N - 1"] pm [of "?N - 1"]
             del: processOperation.simps)
  have w1: "wordCount ctx1 = 0"
    using parsePromptFile_wordCount [OF p] by (simp add: NewProcessingContext_def)
  have third: "?N = sectionWords sections"
    if "\<forall>op \<in> set (rangeOps pf). fst (GetType op) \<noteq> PromptOp"
    using flat_charge [OF o that] w1 by simp
  show ?thesis using first second third by blast
qed

theorem word_budget_boundary_witness:
  "validatePromptFileStructure 1 workDir ''/work/words.yml''
       (NewProcessingContext ''/work/words.yml'' 100 ''xml'' []) =
     (Some (Inr ()),
      \<lparr>basePath = ''/work'', visitedFiles = {}, maxWords = 100, wordCount = 0,
       delimiterStyle = ''xml'', events = [EvReadFile ''/work/words.yml'']\<rparr>) \<and>
   processOperations 1 workDir [textOp ''one two'', fileOp ''data.txt'']
       \<lparr>basePath = ''/work'', visitedFiles = {}, maxWords = 100, wordCount = 0,
        delimiterStyle = ''xml'',
        events = [EvReadFile ''/work/words.yml'', EvReadFile ''/work/words.yml'']\<rparr> =
     (Some (Inr [\<lparr>Source = ''text'', Content = ''one two'', Type = TextOp\<rparr>,
                 \<lparr>Source = ''data.txt'', Content = ''three\<newline>'', Type = FileOp\<rparr>]),
      \<lparr>basePath = ''/work'', visitedFiles = {}, maxWords = 100, wordCount = 3,
       delimiterStyle = ''xml'',
       events = [EvReadFile ''/work/words.yml'', EvReadFile ''/work/words.yml'',
                 EvStat ''/work/data.txt'', EvOpen ''/work/data.txt'',
                 EvReadFile ''/work/data.txt'']\<rparr>) \<and>
   fst (processPromptFile 1 workDir ''/work/words.yml'' [] 3 ''xml'') = Some (Inr ()) \<and>
   fst (processPromptFile 1 workDir ''/work/words.yml'' [] 2 ''xml'') =
     Some (Inl (ErrWordLimitExceeded 3 2)) \<and>
   sectionWords [\<lparr>Source = ''text'', Content = ''one two'', Type = TextOp\<rparr>,
                 \<lparr>Source = ''data.txt'', Content = ''three\<newline>'', Type = FileOp\<rparr>] = 3"
proof -
  let ?ctxv = "\<lparr>basePath = ''/work'', visitedFiles = {}, maxWords = 100, wordCount = 0,
                delimiterStyle = ''xml'', events = [EvReadFile ''/work/words.yml'']\<rparr>"
  let ?pf = "\<lparr>PromptOps = Some [textOp ''one two'', fileOp ''data.txt'']\<rparr>"
  let ?ctx1 = "\<lparr>basePath = ''/work'', visitedFiles = {}, maxWords = 100, wordCount = 0,
                delimiterStyle = ''xml'',
                events = [EvReadFile ''/work/words.yml'', EvReadFile ''/work/words.yml'']\<rparr>"
  let ?secs = "[\<lparr>Source = ''text'', Content = ''one two'', Type = TextOp\<rparr>,
                \<lparr>Source = ''data.txt'', Content = ''three\<newline>'', Type = FileOp\<rparr>]"
  let ?ctx2 = "\<lparr>basePath = ''/work'', visitedFiles = {}, maxWords = 100, wordCount = 3,
                delimiterStyle = ''xml'',
                events = [EvReadFile ''/work/words.yml'', EvReadFile ''/work/words.yml'',
                          EvStat ''/work/data.txt'', EvOpen ''/work/data.txt'',
                          EvReadFile ''/work/data.txt'']\<rparr>"
  have v: "validatePromptFileStructure 1 workDir ''/work/words.yml''
             (NewProcessingContext ''/work/words.yml'' 100 ''xml'' []) = (Some (Inr ()), ?ctxv)"
    by code_simp
  have p: "parsePromptFile workDir ''/work/words.yml''
             (NewProcessingContext ''/work/words.yml'' 100 ''xml'' (events ?ctxv)) = (Inr ?pf, ?ctx1)"
    by code_simp
  have r: "rangeOps ?pf = [textOp ''one two'', fileOp ''data.txt'']"
    by (simp add: rangeOps_def)
  have o: "processOperations 1 workDir (rangeOps ?pf) ?ctx1 = (Some (Inr ?secs), ?ctx2)"
    unfolding r by code_simp
  have ne: "rangeOps ?pf \<noteq> []"
    unfolding r by simp
  have flat: "\<forall>op \<in> set (rangeOps ?pf). fst (GetType op) \<noteq> PromptOp"
    unfolding r by (simp add: GetType_def textOp_def fileOp_def)
  have out: "([]::string) = [] \<or> writable workDir []"
    by simp
  show ?thesis
    using word_budget_boundary [OF v p o ne out] v o [unfolded r] flat
    by simp
qed

section \<open>Sections follow the operations\<close>

lemma processFileOperation_section:
  assumes "processFileOperation w p ctx = (Inr sec, ctx')"
  shows "Source sec = p \<and> Type sec = FileOp"
proof -
  from processFileOperation_InrD [OF assms] obtain d where
    c: "lookupFile w (ResolvePath ctx p) \<noteq> None" "\<not> isBinaryFile w (ResolvePath ctx p)"
       "ReadFile w (ResolvePath ctx p) = Some d"
    by blast
  show ?thesis
    using assms unfolding processFileOperation_readable [OF c]
    by (auto simp: AddWords_def Let_def split: if_splits)
qed

lemma processCommandOperation_section:
  "processCommandOperation w c ctx = (Inr sec, ctx') \<Longrightarrow> Source sec = c \<and> Type sec = CommandOp"
  by (auto simp: processCommandOperation_def Let_def AddWords_def
           split: if_splits prod.splits)

lemma processTextOperation_section:
  "processTextOperation t ctx = (Inr sec, ctx') \<Longrightarrow> Source sec = ''text'' \<and> Type sec = TextOp"
  by (auto simp: processTextOperation_def Let_def AddWords_def split: if_splits)

lemma processOperation_section:
  assumes "processOperation n w op ctx = (Some (Inr sec), ctx')"
  shows "Source sec = sourceLabel op \<and> Type sec = fst (GetType op)"
  using assms
proof (cases rule: processOperation_InrE)
  case File
  then show ?thesis using processFileOperation_section by (fastforce simp: sourceLabel_def)
next
  case Prompt
  from Prompt(2) have "Source sec = GetValue op \<and> Type sec = PromptOp"
    by (rule processPromptOperation_InrE) simp
  then show ?thesis using Prompt(1) by (simp add: sourceLabel_def)
next
  case Command
  then show ?thesis using processCommandOperation_section by (fastforce simp: sourceLabel_def)
next
  case Text
  then show ?thesis using processTextOperation_section by (fastforce simp: sourceLabel_def)
qed

text \<open>
  A walk that succeeds gives one section for each operation, in the order of the
  operations, with the label and the kind of its operation.
\<close>

lemma sections_follow_operations:
  assumes "processOperations n w ops ctx = (Some (Inr sections), ctx')"
  shows "map Source sections = map sourceLabel ops \<and>
         map Type sections = map (\<lambda>op. fst (GetType op)) ops"
  using assms
proof (induction ops arbitrary: ctx sections)
  case Nil
  then show ?case by simp
next
  case (Cons op ops)
  from Cons.prems obtain sec rest ctx1 where
    o: "processOperation n w op ctx = (Some (Inr sec), ctx1)" and
    r: "processOperations n w ops ctx1 = (Some (Inr rest), ctx')" and
    e: "sections = sec # rest"
    by (rule processOperations_InrE)
  show ?case
    using processOperation_section [OF o] Cons.IH [OF r] e by simp
qed

section \<open>Fuel\<close>

text \<open>A walk that has returned returns the same with more fuel.\<close>

lemma validate_more_fuel_step:
  "\<forall>r c. validatePromptFileStructure n w p ctx = (Some r, c) \<longrightarrow>
           validatePromptFileStructure (Suc n) w p ctx = (Some r, c)"
  "\<forall>r c. validateNested n w ops ctx = (Some r, c) \<longrightarrow>
           validateNested (Suc n) w ops ctx = (Some r, c)"
proof (induction n w p ctx and n w ops ctx rule: validatePromptFileStructure_validateNested.induct)
  case (1 w filePath ctx)
  then show ?case by simp
next
  case (2 n w filePath ctx)
  show ?case
  proof (intro allI impI)
    fix r c
    assume a: "validatePromptFileStructure (Suc n) w filePath ctx = (Some r, c)"
    show "validatePromptFileStructure (Suc (Suc n)) w filePath ctx = (Some r, c)"
    proof (cases "IsVisited w ctx (Abs w filePath)")
      case True
      then show ?thesis using a by (auto simp: Let_def)
    next
      case False
      let ?ctx1 = "MarkVisited w ctx (Abs w filePath)"
      obtain rp ctx2 where p: "parsePromptFile w filePath ?ctx1 = (rp, ctx2)"
        by (cases "parsePromptFile w filePath ?ctx1")
      show ?thesis
      proof (cases rp)
        case (Inl e)
        then show ?thesis using a False p by (simp add: Let_def)
      next
        case (Inr pf)
        obtain rn c3 where v: "validateNested n w (rangeOps pf) ctx2 = (rn, c3)"
          by (cases "validateNested n w (rangeOps pf) ctx2")
        from a False p Inr v have rn: "rn = Some r"
          by (simp add: Let_def)
        have "validateNested (Suc n) w (rangeOps pf) ctx2 = (Some r, c3)"
          using "2.IH" [OF refl False refl p [unfolded Inr, symmetric] refl] v rn by blast
        then show ?thesis
          using a False p Inr v
          by (simp add: Let_def del: validatePromptFileStructure.simps(2) validateNested.simps
                   add: validatePromptFileStructure.simps(2) [of "Suc n"]
                        validatePromptFileStructure.simps(2) [of n])
      qed
    qed
  qed
next
  case (3 n w ctx)
  then show ?case by simp
next
  case (4 n w op ops ctx)
  show ?case
  proof (intro allI impI)
    fix r c
    assume a: "validateNested n w (op # ops) ctx = (Some r, c)"
    show "validateNested (Suc n) w (op # ops) ctx = (Some r, c)"
    proof (cases "fst (GetType op) = PromptOp")
      case False
      then have "validateNested n w ops ctx = (Some r, c)"
        using a by simp
      then have "validateNested (Suc n) w ops ctx = (Some r, c)"
        using "4.IH"(3) [OF False] by blast
      then show ?thesis
        using False by (simp del: validatePromptFileStructure.simps)
    next
      case True
      let ?np = "ResolvePath ctx (GetValue op)"
      obtain rv ctx1 where v: "validatePromptFileStructure n w ?np ctx = (rv, ctx1)"
        by (cases "validatePromptFileStructure n w ?np ctx")
      from a True v obtain x where rv: "rv = Some x"
        by (cases rv) (auto simp: Let_def simp del: validatePromptFileStructure.simps)
      have v': "validatePromptFileStructure (Suc n) w ?np ctx = (Some x, ctx1)"
        using "4.IH"(1) [OF True refl] v rv by blast
      show ?thesis
      proof (cases x)
        case (Inl e)
        then show ?thesis
          using a True v v' rv by (auto simp: Let_def simp del: validatePromptFileStructure.simps)
      next
        case (Inr u)
        have rest: "validateNested n w ops ctx1 = (Some r, c)"
          using a True v rv Inr by (simp add: Let_def del: validatePromptFileStructure.simps)
        have "validateNested (Suc n) w ops ctx1 = (Some r, c)"
          using "4.IH"(2) [OF True refl v [unfolded rv Inr, symmetric] refl refl] rest by blast
        then show ?thesis
          using True v' Inr by (simp add: Let_def del: validatePromptFileStructure.simps)
      qed
    qed
  qed
qed

lemma processOperation_not_prompt:
  assumes "GetType op \<noteq> (PromptOp, None)"
  shows "processOperation n w op ctx = processOperation m w op ctx"
proof -
  obtain t e where g: "GetType op = (t, e)"
    by (cases "GetType op")
  show ?thesis
    using assms g by (cases t; cases e) simp_all
qed

lemma processOperation_prompt:
  assumes "GetType op = (PromptOp, None)"
  shows "processOperation n w op ctx = processPromptOperation n w (GetValue op) ctx"
  using assms by simp

lemma process_more_fuel_step:
  "\<forall>r c. processOperation n w op ctx = (Some r, c) \<longrightarrow>
           processOperation (Suc n) w op ctx = (Some r, c)"
  "\<forall>r c. processPromptOperation n w p ctx = (Some r, c) \<longrightarrow>
           processPromptOperation (Suc n) w p ctx = (Some r, c)"
  "\<forall>r c. processOperations n w ops ctx = (Some r, c) \<longrightarrow>
           processOperations (Suc n) w ops ctx = (Some r, c)"
proof (induction n w op ctx and n w p ctx and n w ops ctx
       rule: processOperation_processPromptOperation_processOperations.induct)
  case (1 n w op ctx)
  show ?case
  proof (cases "GetType op = (PromptOp, None)")
    case True
    show ?thesis
      using "1.IH" [OF True [symmetric] refl refl]
      unfolding processOperation_prompt [OF True] .
  next
    case False
    show ?thesis
      using processOperation_not_prompt [OF False, of "Suc n" w ctx n] by simp
  qed
next
  case (2 w promptPath ctx)
  then show ?case by simp
next
  case (3 n w promptPath ctx)
  show ?case
  proof (intro allI impI)
    fix r c
    let ?rp = "ResolvePath ctx promptPath"
    assume a: "processPromptOperation (Suc n) w promptPath ctx = (Some r, c)"
    show "processPromptOperation (Suc (Suc n)) w promptPath ctx = (Some r, c)"
    proof (cases "IsVisited w ctx ?rp")
      case True
      then show ?thesis using a by (auto simp: Let_def)
    next
      case False
      obtain rp ctx1 where p: "parsePromptFile w ?rp ctx = (rp, ctx1)"
        by (cases "parsePromptFile w ?rp ctx")
      show ?thesis
      proof (cases rp)
        case (Inl e)
        then show ?thesis using a False p by (auto simp: Let_def)
      next
        case (Inr pf)
        let ?ctx3 = "MarkVisited w (ctx1\<lparr>basePath := Dir ?rp\<rparr>) ?rp"
        note p' = p [unfolded Inr]
        obtain ro c4 where o: "processOperations n w (rangeOps pf) ?ctx3 = (ro, c4)"
          by (cases "processOperations n w (rangeOps pf) ?ctx3")
        from a o obtain x where ro: "ro = Some x"
          unfolding processPromptOperation_parsed [OF False p']
          by (cases ro) auto
        have "processOperations (Suc n) w (rangeOps pf) ?ctx3 = (Some x, c4)"
          using "3.IH" [OF refl False p' [symmetric] refl refl refl refl] o ro by blast
        then show ?thesis
          using a o ro
          unfolding processPromptOperation_parsed [OF False p', of n]
                    processPromptOperation_parsed [OF False p', of "Suc n"]
          by simp
      qed
    qed
  qed
next
  case (4 n w ctx)
  then show ?case by simp
next
  case (5 n w op ops ctx)
  show ?case
  proof (intro allI impI)
    fix r c
    assume a: "processOperations n w (op # ops) ctx = (Some r, c)"
    obtain ro c1 where o: "processOperation n w op ctx = (ro, c1)"
      by (cases "processOperation n w op ctx")
    from a o obtain x where ro: "ro = Some x"
      by (cases ro) (auto simp del: processOperation.simps)
    have o': "processOperation (Suc n) w op ctx = (Some x, c1)"
      using "5.IH"(1) o ro by blast
    show "processOperations (Suc n) w (op # ops) ctx = (Some r, c)"
    proof (cases x)
      case (Inl e)
      then show ?thesis
        using a o ro o' by (auto simp del: processOperation.simps)
    next
      case (Inr sec)
      obtain rr c2 where t: "processOperations n w ops c1 = (rr, c2)"
        by (cases "processOperations n w ops c1")
      from a o ro Inr t obtain y where rr: "rr = Some y"
        by (cases rr) (auto simp del: processOperation.simps)
      have t': "processOperations (Suc n) w ops c1 = (Some y, c2)"
        using "5.IH"(2) [OF o [unfolded ro Inr, symmetric] refl refl] t rr by blast
      show ?thesis
        using a o ro Inr t rr o' t'
        by (auto simp del: processOperation.simps split: sum.splits)
    qed
  qed
qed

lemma validate_more_fuel:
  assumes "validatePromptFileStructure n w p ctx = (Some r, c)" and "n \<le> m"
  shows "validatePromptFileStructure m w p ctx = (Some r, c)"
  using assms(2,1)
  by (induction rule: dec_induct) (use validate_more_fuel_step(1) in blast)+

lemma process_more_fuel:
  assumes "processOperations n w ops ctx = (Some r, c)" and "n \<le> m"
  shows "processOperations m w ops ctx = (Some r, c)"
  using assms(2,1)
  by (induction rule: dec_induct) (use process_more_fuel_step(3) in blast)+

text \<open>A run that has returned returns the same with more fuel.\<close>

lemma processPromptFile_more_fuel:
  assumes "processPromptFile n w promptFile outputFile limit style = (Some r, evs)"
      and "n \<le> m"
  shows "processPromptFile m w promptFile outputFile limit style = (Some r, evs)"
proof -
  let ?c0 = "NewProcessingContext promptFile limit style []"
  obtain rv ctxv where v: "validatePromptFileStructure n w promptFile ?c0 = (rv, ctxv)"
    by (cases "validatePromptFileStructure n w promptFile ?c0")
  from assms(1) v obtain x where rv: "rv = Some x"
    by (cases rv) (auto simp: processPromptFile_def)
  have vm: "validatePromptFileStructure m w promptFile ?c0 = (Some x, ctxv)"
    using validate_more_fuel [OF v [unfolded rv] assms(2)] .
  show ?thesis
  proof (cases x)
    case (Inl e)
    then show ?thesis
      using assms(1) v rv vm by (auto simp: processPromptFile_def)
  next
    case (Inr u)
    let ?c1 = "NewProcessingContext promptFile limit style (events ctxv)"
    obtain rp ctx1 where p: "parsePromptFile w promptFile ?c1 = (rp, ctx1)"
      by (cases "parsePromptFile w promptFile ?c1")
    show ?thesis
    proof (cases rp)
      case (Inl e)
      then show ?thesis
        using assms(1) v rv vm Inr p by (auto simp: processPromptFile_def)
    next
      case pf: (Inr pf)
      obtain ro ctx2 where o: "processOperations n w (rangeOps pf) ctx1 = (ro, ctx2)"
        by (cases "processOperations n w (rangeOps pf) ctx1")
      from assms(1) v rv Inr p pf o obtain y where ro: "ro = Some y"
        by (cases ro) (auto simp: processPromptFile_def simp del: processOperation.simps)
      have om: "processOperations m w (rangeOps pf) ctx1 = (Some y, ctx2)"
        using process_more_fuel [OF o [unfolded ro] assms(2)] .
      show ?thesis
        using assms(1) v rv vm Inr p pf o ro om
        by (auto simp: processPromptFile_def Let_def simp del: processOperation.simps)
    qed
  qed
qed

section \<open>Cleaned paths\<close>

lemma splitPath_no_slash: "e \<in> set (splitPath p) \<Longrightarrow> CHR ''/'' \<notin> set e"
proof (induction p arbitrary: e)
  case Nil
  then show ?case by simp
next
  case (Cons c cs)
  show ?case
  proof (cases "c = CHR ''/''")
    case True
    then show ?thesis using Cons by auto
  next
    case False
    obtain x xs where s: "splitPath cs = x # xs"
      by (cases "splitPath cs") (cases cs, auto split: if_splits list.splits)
    have "CHR ''/'' \<notin> set x" and "\<And>y. y \<in> set xs \<Longrightarrow> CHR ''/'' \<notin> set y"
      using Cons.IH s by auto
    then show ?thesis using Cons.prems False s by auto
  qed
qed

lemma splitPath_plain: "CHR ''/'' \<notin> set e \<Longrightarrow> splitPath e = [e]"
  by (induction e) auto

lemma splitPath_append_slash:
  "CHR ''/'' \<notin> set e \<Longrightarrow> splitPath (e @ CHR ''/'' # rest) = e # splitPath rest"
  by (induction e) auto

lemma splitPath_joinElems:
  "es \<noteq> [] \<Longrightarrow> (\<forall>e \<in> set es. CHR ''/'' \<notin> set e) \<Longrightarrow> splitPath (joinElems es) = es"
proof (induction es rule: joinElems.induct)
  case 1
  then show ?case by simp
next
  case (2 e)
  then show ?case by (simp add: splitPath_plain)
next
  case (3 e v va)
  then show ?case by (simp add: splitPath_append_slash)
qed

lemma cleanElems_plain_input:
  "(\<forall>e \<in> set es. plainElem e) \<Longrightarrow> cleanElems rooted out es = rev out @ es"
  by (induction es arbitrary: out) (auto simp: plainElem_def)

lemma cleanElems_skip:
  "e = [] \<or> e = ''.'' \<Longrightarrow> cleanElems rooted out (e # es) = cleanElems rooted out es"
  by auto

lemma cleanElems_up_at_root: "cleanElems True [] (''..'' # es) = cleanElems True [] es"
  by simp

lemma cleanElems_up:
  "d \<noteq> ''..'' \<Longrightarrow> cleanElems rooted (d # ds) (''..'' # es) = cleanElems rooted ds es"
  by simp

lemma cleanElems_push:
  "e \<noteq> [] \<Longrightarrow> e \<noteq> ''.'' \<Longrightarrow> e \<noteq> ''..'' \<Longrightarrow>
   cleanElems rooted out (e # es) = cleanElems rooted (e # out) es"
  by simp

lemma cleanElems_rooted_plain:
  "(\<forall>e \<in> set out. plainElem e) \<Longrightarrow> (\<forall>e \<in> set es. CHR ''/'' \<notin> set e) \<Longrightarrow>
   \<forall>e \<in> set (cleanElems True out es). plainElem e"
proof (induction es arbitrary: out)
  case Nil
  then show ?case by simp
next
  case step: (Cons e es)
  have rest: "\<forall>x \<in> set es. CHR ''/'' \<notin> set x"
    using step.prems(2) by simp
  have noslash: "CHR ''/'' \<notin> set e"
    using step.prems(2) by simp
  consider (skip) "e = [] \<or> e = ''.''"
    | (root) "e = ''..''" "out = []"
    | (up) d ds where "e = ''..''" "out = d # ds"
    | (push) "e \<noteq> []" "e \<noteq> ''.''" "e \<noteq> ''..''"
    by (cases out) blast+
  then show ?case
  proof cases
    case skip
    show ?thesis
      unfolding cleanElems_skip [OF skip]
      by (rule step.IH [OF step.prems(1) rest])
  next
    case root
    have "\<forall>x \<in> set ([]::string list). plainElem x" by simp
    then show ?thesis
      unfolding root cleanElems_up_at_root
      by (rule step.IH [OF _ rest])
  next
    case up
    have d: "plainElem d" and ds: "\<forall>x \<in> set ds. plainElem x"
      using step.prems(1) unfolding up(2) by simp_all
    from d have "d \<noteq> ''..''"
      unfolding plainElem_def by blast
    then show ?thesis
      unfolding up cleanElems_up [OF \<open>d \<noteq> ''..''\<close>]
      using step.IH [OF ds rest] by blast
  next
    case push
    have "plainElem e"
      unfolding plainElem_def using push noslash by blast
    then have "\<forall>x \<in> set (e # out). plainElem x"
      using step.prems(1) by simp
    then show ?thesis
      unfolding cleanElems_push [OF push]
      by (rule step.IH [OF _ rest])
  qed
qed

lemma IsAbs_Cons: "IsAbs p \<Longrightarrow> \<exists>cs. p = CHR ''/'' # cs"
  by (cases p) (auto simp: IsAbs_def)

text \<open>Cleaning a rooted path gives a rooted path that cleaning leaves as it is.\<close>

lemma Clean_rooted:
  assumes "IsAbs p"
  shows "IsAbs (Clean p)" and "Clean (Clean p) = Clean p"
proof -
  let ?es = "cleanElems True [] (splitPath p)"
  have c: "Clean p = CHR ''/'' # joinElems ?es"
    using assms by (simp add: Clean_def)
  show "IsAbs (Clean p)"
    by (simp add: c IsAbs_def)
  have plain: "\<forall>e \<in> set ?es. plainElem e"
    using cleanElems_rooted_plain [of "[]" "splitPath p"] splitPath_no_slash by simp
  have "cleanElems True [] (splitPath (joinElems ?es)) = ?es"
  proof (cases "?es = []")
    case True
    then show ?thesis by simp
  next
    case False
    have "splitPath (joinElems ?es) = ?es"
      using splitPath_joinElems [OF False] plain by (simp add: plainElem_def)
    then show ?thesis
      using cleanElems_plain_input [OF plain, of True "[]"] by simp
  qed
  then have "Clean (CHR ''/'' # joinElems ?es) = CHR ''/'' # joinElems ?es"
    by (simp add: Clean_def [of "CHR ''/'' # joinElems ?es"] IsAbs_def [of "CHR ''/'' # joinElems ?es"])
  then show "Clean (Clean p) = Clean p"
    by (simp only: c)
qed

lemma Abs_rooted:
  assumes "IsAbs (cwd w)"
  shows "IsAbs (Abs w p)" and "Abs w (Abs w p) = Abs w p"
proof -
  have "\<exists>q. IsAbs q \<and> Abs w p = Clean q"
  proof (cases "IsAbs p")
    case True
    then show ?thesis by (auto simp: Abs_def)
  next
    case False
    obtain cs where cw: "cwd w = CHR ''/'' # cs"
      using IsAbs_Cons [OF assms] by blast
    have "joinElems [cwd w, p] = cwd w @ ''/'' @ p"
      by simp
    then have "IsAbs (joinElems [cwd w, p])"
      using cw by (simp add: IsAbs_def)
    moreover have "Abs w p = Clean (joinElems [cwd w, p])"
      using False cw by (simp add: Abs_def)
    ultimately show ?thesis by blast
  qed
  then obtain q where q: "IsAbs q" "Abs w p = Clean q"
    by blast
  show "IsAbs (Abs w p)"
    using Clean_rooted(1) [OF q(1)] q(2) by simp
  then show "Abs w (Abs w p) = Abs w p"
    using Clean_rooted(2) [OF q(1)] q(2) by (simp add: Abs_def)
qed

section \<open>The walks return\<close>

lemma parsePromptFile_visitedFiles:
  "parsePromptFile w p ctx = (r, c) \<Longrightarrow> visitedFiles c = visitedFiles ctx"
  by (auto simp: parsePromptFile_def Let_def emit_def split: option.splits sum.splits)

lemma parsePromptFile_Inr_dom:
  "parsePromptFile w p ctx = (Inr pf, c) \<Longrightarrow> Abs w p \<in> dom (files w)"
  by (auto simp: parsePromptFile_def Let_def ReadFile_def lookupFile_def
           split: option.splits sum.splits fs_node.splits)

lemma card_unvisited_insert:
  assumes "finite F" and "a \<in> F" and "a \<notin> V" and "card (F - V) < Suc n"
  shows "card (F - insert a V) < n"
proof -
  have "F - insert a V = (F - V) - {a}" by blast
  moreover have "a \<in> F - V" using assms by simp
  moreover have "finite (F - V)" using assms(1) by simp
  ultimately have "card (F - insert a V) = card (F - V) - 1"
    by simp
  moreover have "0 < card (F - V)"
    using \<open>a \<in> F - V\<close> \<open>finite (F - V)\<close> card_gt_0_iff by blast
  ultimately show ?thesis using assms(4) by simp
qed

text \<open>
  With finitely many files and an absolute working directory, the validation walk
  returns when it has more fuel than there are files not on its stack. It leaves the
  stack as it found it.
\<close>

lemma validate_returns:
  "IsAbs (cwd w) \<Longrightarrow> finite (dom (files w)) \<Longrightarrow>
   card (dom (files w) - visitedFiles ctx) < n \<longrightarrow>
     (\<exists>r c. validatePromptFileStructure n w p ctx = (Some r, c) \<and>
            visitedFiles c = visitedFiles ctx)"
  "IsAbs (cwd w) \<Longrightarrow> finite (dom (files w)) \<Longrightarrow>
   card (dom (files w) - visitedFiles ctx) < n \<longrightarrow>
     (\<exists>r c. validateNested n w ops ctx = (Some r, c) \<and>
            visitedFiles c = visitedFiles ctx)"
proof (induction n w p ctx and n w ops ctx rule: validatePromptFileStructure_validateNested.induct)
  case (1 w filePath ctx)
  then show ?case by simp
next
  case (2 n w filePath ctx)
  show ?case
  proof
    assume small: "card (dom (files w) - visitedFiles ctx) < Suc n"
    let ?a = "Abs w filePath"
    have idem: "Abs w ?a = ?a"
      using Abs_rooted(2) "2.prems"(1) by blast
    show "\<exists>r c. validatePromptFileStructure (Suc n) w filePath ctx = (Some r, c) \<and>
                 visitedFiles c = visitedFiles ctx"
    proof (cases "IsVisited w ctx ?a")
      case True
      then show ?thesis by (simp add: Let_def)
    next
      case False
      then have notin: "?a \<notin> visitedFiles ctx"
        by (simp add: IsVisited_def idem)
      let ?ctx1 = "MarkVisited w ctx ?a"
      have v1: "visitedFiles ?ctx1 = insert ?a (visitedFiles ctx)"
        by (simp add: MarkVisited_def idem)
      obtain r ctx2 where p: "parsePromptFile w filePath ?ctx1 = (r, ctx2)"
        by (cases "parsePromptFile w filePath ?ctx1")
      have v2: "visitedFiles ctx2 = insert ?a (visitedFiles ctx)"
        using parsePromptFile_visitedFiles [OF p] v1 by simp
      have restored: "insert ?a (visitedFiles ctx) - {?a} = visitedFiles ctx"
        using notin by blast
      show ?thesis
      proof (cases r)
        case (Inl e)
        then show ?thesis using False p v2 restored by (simp add: Let_def)
      next
        case (Inr pf)
        have "?a \<in> dom (files w)"
          using parsePromptFile_Inr_dom p Inr by blast
        then have "card (dom (files w) - visitedFiles ctx2) < n"
          using card_unvisited_insert [OF "2.prems"(2) _ notin small] v2 by simp
        then obtain rn c3 where
          n: "validateNested n w (rangeOps pf) ctx2 = (Some rn, c3)" and
          v3: "visitedFiles c3 = visitedFiles ctx2"
          using "2.IH" [OF refl False refl p [unfolded Inr, symmetric] refl "2.prems"] by blast
        show ?thesis
          using False p Inr n v3 v2 restored by (simp add: Let_def)
      qed
    qed
  qed
next
  case (3 n w ctx)
  then show ?case by simp
next
  case (4 n w op ops ctx)
  show ?case
  proof
    assume small: "card (dom (files w) - visitedFiles ctx) < n"
    show "\<exists>r c. validateNested n w (op # ops) ctx = (Some r, c) \<and>
                 visitedFiles c = visitedFiles ctx"
    proof (cases "fst (GetType op) = PromptOp")
      case False
      then show ?thesis
        using "4.IH"(3) [OF False "4.prems"] small
        by (simp del: validatePromptFileStructure.simps)
    next
      case True
      let ?np = "ResolvePath ctx (GetValue op)"
      obtain r c1 where
        v: "validatePromptFileStructure n w ?np ctx = (Some r, c1)" and
        v1: "visitedFiles c1 = visitedFiles ctx"
        using "4.IH"(1) [OF True refl "4.prems"] small by blast
      show ?thesis
      proof (cases r)
        case (Inl e)
        then show ?thesis
          using True v v1 by (simp add: Let_def del: validatePromptFileStructure.simps)
      next
        case (Inr u)
        have "card (dom (files w) - visitedFiles c1) < n"
          using small v1 by simp
        then obtain r2 c2 where
          "validateNested n w ops c1 = (Some r2, c2)" "visitedFiles c2 = visitedFiles c1"
          using "4.IH"(2) [OF True refl v [unfolded Inr, symmetric] refl refl "4.prems"] by blast
        then show ?thesis
          using True v Inr v1 by (simp add: Let_def del: validatePromptFileStructure.simps)
      qed
    qed
  qed
qed

lemma processFileOperation_visitedFiles:
  "visitedFiles (snd (processFileOperation w p ctx)) = visitedFiles ctx"
  by (simp add: processFileOperation_def Let_def emit_def AddWords_def
           split: option.splits)

lemma processCommandOperation_visitedFiles:
  "visitedFiles (snd (processCommandOperation w c ctx)) = visitedFiles ctx"
  by (simp add: processCommandOperation_def Let_def emit_def AddWords_def
           split: prod.splits)

lemma processTextOperation_visitedFiles:
  "visitedFiles (snd (processTextOperation t ctx)) = visitedFiles ctx"
  by (simp add: processTextOperation_def Let_def AddWords_def)

lemma AddWords_visitedFiles: "visitedFiles (snd (AddWords ctx c)) = visitedFiles ctx"
  by (simp add: AddWords_def Let_def)

lemma processOperation_leaf_returns:
  assumes "GetType op \<noteq> (PromptOp, None)"
  shows "\<exists>r c. processOperation n w op ctx = (Some r, c) \<and> visitedFiles c = visitedFiles ctx"
proof -
  obtain t e where g: "GetType op = (t, e)"
    by (cases "GetType op")
  show ?thesis
  proof (cases e)
    case (Some err)
    then show ?thesis using g by (cases t) simp_all
  next
    case None
    show ?thesis
    proof (cases t)
      case FileOp
      then show ?thesis
        using g None processFileOperation_visitedFiles [of w "GetValue op" ctx]
        by (cases "processFileOperation w (GetValue op) ctx") simp
    next
      case PromptOp
      then show ?thesis using assms g None by simp
    next
      case CommandOp
      then show ?thesis
        using g None processCommandOperation_visitedFiles [of w "GetValue op" ctx]
        by (cases "processCommandOperation w (GetValue op) ctx") simp
    next
      case TextOp
      then show ?thesis
        using g None processTextOperation_visitedFiles [of "GetValue op" ctx]
        by (cases "processTextOperation (GetValue op) ctx") simp
    qed
  qed
qed

text \<open>
  The execution walk returns under the same condition. A mark on its stack may stay
  after the document is done, so the stack can only grow; every mark is an
  absolute cleaned path.
\<close>

lemma process_returns:
  "IsAbs (cwd w) \<Longrightarrow> finite (dom (files w)) \<Longrightarrow>
   (\<forall>v \<in> visitedFiles ctx. Abs w v = v) \<and> card (dom (files w) - visitedFiles ctx) < n \<longrightarrow>
     (\<exists>r c. processOperation n w op ctx = (Some r, c) \<and>
            visitedFiles ctx \<subseteq> visitedFiles c \<and> (\<forall>v \<in> visitedFiles c. Abs w v = v))"
  "IsAbs (cwd w) \<Longrightarrow> finite (dom (files w)) \<Longrightarrow>
   (\<forall>v \<in> visitedFiles ctx. Abs w v = v) \<and> card (dom (files w) - visitedFiles ctx) < n \<longrightarrow>
     (\<exists>r c. processPromptOperation n w p ctx = (Some r, c) \<and>
            visitedFiles ctx \<subseteq> visitedFiles c \<and> (\<forall>v \<in> visitedFiles c. Abs w v = v))"
  "IsAbs (cwd w) \<Longrightarrow> finite (dom (files w)) \<Longrightarrow>
   (\<forall>v \<in> visitedFiles ctx. Abs w v = v) \<and> card (dom (files w) - visitedFiles ctx) < n \<longrightarrow>
     (\<exists>r c. processOperations n w ops ctx = (Some r, c) \<and>
            visitedFiles ctx \<subseteq> visitedFiles c \<and> (\<forall>v \<in> visitedFiles c. Abs w v = v))"
proof (induction n w op ctx and n w p ctx and n w ops ctx
       rule: processOperation_processPromptOperation_processOperations.induct)
  case (1 n w op ctx)
  show ?case
  proof (cases "GetType op = (PromptOp, None)")
    case True
    show ?thesis
      using "1.IH" [OF True [symmetric] refl refl "1.prems"]
      unfolding processOperation_prompt [OF True] .
  next
    case False
    show ?thesis
      using processOperation_leaf_returns [OF False, of n w ctx] by auto
  qed
next
  case (2 w promptPath ctx)
  then show ?case by simp
next
  case (3 n w promptPath ctx)
  show ?case
  proof
    let ?V = "visitedFiles ctx"
    let ?rp = "ResolvePath ctx promptPath"
    let ?a = "Abs w ?rp"
    assume h: "(\<forall>v \<in> ?V. Abs w v = v) \<and> card (dom (files w) - ?V) < Suc n"
    then have inv: "\<forall>v \<in> ?V. Abs w v = v" and small: "card (dom (files w) - ?V) < Suc n"
      by simp_all
    have idem: "Abs w ?a = ?a"
      using Abs_rooted(2) "3.prems"(1) by blast
    show "\<exists>r c. processPromptOperation (Suc n) w promptPath ctx = (Some r, c) \<and>
                 ?V \<subseteq> visitedFiles c \<and> (\<forall>v \<in> visitedFiles c. Abs w v = v)"
    proof (cases "IsVisited w ctx ?rp")
      case True
      then show ?thesis using inv by (simp add: Let_def)
    next
      case False
      then have notin: "?a \<notin> ?V"
        by (simp add: IsVisited_def)
      have rpnotin: "?rp \<notin> ?V"
        using notin inv by force
      obtain r ctx1 where p: "parsePromptFile w ?rp ctx = (r, ctx1)"
        by (cases "parsePromptFile w ?rp ctx")
      have v1: "visitedFiles ctx1 = ?V"
        using parsePromptFile_visitedFiles [OF p] .
      show ?thesis
      proof (cases r)
        case (Inl e)
        then show ?thesis using False p v1 inv by (simp add: Let_def)
      next
        case (Inr pf)
        note p' = p [unfolded Inr]
        let ?ctx3 = "MarkVisited w (ctx1\<lparr>basePath := Dir ?rp\<rparr>) ?rp"
        have v3: "visitedFiles ?ctx3 = insert ?a ?V"
          using v1 by (simp add: MarkVisited_def)
        have inv3: "\<forall>v \<in> visitedFiles ?ctx3. Abs w v = v"
          using inv idem v3 by simp
        have "?a \<in> dom (files w)"
          using parsePromptFile_Inr_dom [OF p'] .
        then have "card (dom (files w) - visitedFiles ?ctx3) < n"
          using card_unvisited_insert [OF "3.prems"(2) _ notin small] v3 by simp
        then obtain r4 c4 where
          o: "processOperations n w (rangeOps pf) ?ctx3 = (Some r4, c4)" and
          sub: "visitedFiles ?ctx3 \<subseteq> visitedFiles c4" and
          inv4: "\<forall>v \<in> visitedFiles c4. Abs w v = v"
          using "3.IH" [OF refl False p' [symmetric] refl refl refl refl "3.prems"] inv3
          by blast
        have sub4: "?V \<subseteq> visitedFiles c4"
          using sub v3 by blast
        show ?thesis
        proof (cases r4)
          case (Inl e)
          then show ?thesis
            using o sub4 inv4 unfolding processPromptOperation_parsed [OF False p']
            by simp
        next
          case secs: (Inr secs)
          let ?ctx6 = "c4\<lparr>visitedFiles := visitedFiles c4 - {?rp}, basePath := basePath ctx1\<rparr>"
          let ?cw = "countWords (combineSections 0 promptPath (delimiterStyle c4) secs)"
          obtain x c7 where aw: "AddWords ?ctx6 ?cw = (x, c7)"
            by (cases "AddWords ?ctx6 ?cw")
          have v7: "visitedFiles c7 = visitedFiles c4 - {?rp}"
            using AddWords_visitedFiles [of ?ctx6 ?cw] aw by simp
          have s7: "?V \<subseteq> visitedFiles c7"
            using sub4 rpnotin v7 by blast
          have i7: "\<forall>v \<in> visitedFiles c7. Abs w v = v"
            using inv4 v7 by simp
          show ?thesis
            using o secs aw s7 i7 unfolding processPromptOperation_parsed [OF False p']
            by (cases x) simp_all
        qed
      qed
    qed
  qed
next
  case (4 n w ctx)
  then show ?case by simp
next
  case (5 n w op ops ctx)
  show ?case
  proof
    let ?V = "visitedFiles ctx"
    assume h: "(\<forall>v \<in> ?V. Abs w v = v) \<and> card (dom (files w) - ?V) < n"
    then obtain r1 c1 where
      o: "processOperation n w op ctx = (Some r1, c1)" and
      sub1: "?V \<subseteq> visitedFiles c1" and
      inv1: "\<forall>v \<in> visitedFiles c1. Abs w v = v"
      using "5.IH"(1) [OF "5.prems"] by blast
    show "\<exists>r c. processOperations n w (op # ops) ctx = (Some r, c) \<and>
                 ?V \<subseteq> visitedFiles c \<and> (\<forall>v \<in> visitedFiles c. Abs w v = v)"
    proof (cases r1)
      case (Inl e)
      then show ?thesis
        using o sub1 inv1 by (simp del: processOperation.simps)
    next
      case (Inr sec)
      have "dom (files w) - visitedFiles c1 \<subseteq> dom (files w) - ?V"
        using sub1 by blast
      then have "card (dom (files w) - visitedFiles c1) \<le> card (dom (files w) - ?V)"
        using "5.prems"(2) by (simp add: card_mono)
      then have "card (dom (files w) - visitedFiles c1) < n"
        using h by simp
      then obtain r2 c2 where
        t: "processOperations n w ops c1 = (Some r2, c2)" and
        sub2: "visitedFiles c1 \<subseteq> visitedFiles c2" and
        inv2: "\<forall>v \<in> visitedFiles c2. Abs w v = v"
        using "5.IH"(2) [OF o [unfolded Inr, symmetric] refl refl "5.prems"] inv1 by blast
      have "?V \<subseteq> visitedFiles c2"
        using sub1 sub2 by blast
      then show ?thesis
        using o Inr t inv2 by (cases r2) (simp_all del: processOperation.simps)
    qed
  qed
qed

text \<open>
  So a run returns, with a result or an error, when it has more fuel than there are
  files.
\<close>

lemma processPromptFile_returns:
  assumes "IsAbs (cwd w)" and "finite (dom (files w))" and "card (dom (files w)) < n"
  shows "\<exists>r evs. processPromptFile n w promptFile outputFile limit style = (Some r, evs)"
proof -
  let ?c0 = "NewProcessingContext promptFile limit style []"
  have e0: "visitedFiles (NewProcessingContext promptFile limit style evs) = {}" for evs
    by (simp add: NewProcessingContext_def)
  obtain rv ctxv where v: "validatePromptFileStructure n w promptFile ?c0 = (Some rv, ctxv)"
    using validate_returns(1) [OF assms(1,2), of ?c0 n promptFile] assms(3) e0 by auto
  let ?c1 = "NewProcessingContext promptFile limit style (events ctxv)"
  obtain rp ctx1 where p: "parsePromptFile w promptFile ?c1 = (rp, ctx1)"
    by (cases "parsePromptFile w promptFile ?c1")
  have v1: "visitedFiles ctx1 = {}"
    using parsePromptFile_visitedFiles [OF p] e0 by simp
  obtain ro ctx2 where o: "processOperations n w ops ctx1 = (Some (ro ops), ctx2 ops)" for ops
    using process_returns(3) [OF assms(1,2), of ctx1 n] assms(3) v1 by (simp, metis)
  show ?thesis
    using v p o
    by (cases rv; cases rp)
       (auto simp: processPromptFile_def Let_def simp del: processOperation.simps
             split: sum.splits)
qed

end
